theory Spec2Isabelle
  imports Complex_Main "HOL-Library.Sublist"
begin

section \<open>Strings as the plugin uses them\<close>

text \<open>
  JavaScript strings are modelled as \<open>string\<close>: the bytes of the text's UTF-8 encoding. A
  regular expression knows four line terminators: LF, CR, and the line and paragraph
  separators U+2028 and U+2029, which are three bytes each. The dot of a pattern matches
  none of them, and with the \<open>m\<close> flag \<open>^\<close> and \<open>$\<close> match next to them. In UTF-8 the three
  bytes of a separator occur nowhere but where the separator stands.
\<close>

definition newline :: char where
  "newline = CHR 0x0A"

definition LS :: string where
  "LS = [CHR 0xE2, CHR 0x80, CHR 0xA8]"

definition PS :: string where
  "PS = [CHR 0xE2, CHR 0x80, CHR 0xA9]"

text \<open>The line terminator a text begins with, empty when it begins with none.\<close>

definition line_terminator_at :: "string \<Rightarrow> string" where
  "line_terminator_at s =
     (if prefix [CHR 0x0A] s then [CHR 0x0A]
      else if prefix [CHR 0x0D] s then [CHR 0x0D]
      else if prefix LS s then LS
      else if prefix PS s then PS
      else [])"

text \<open>
  \<open>.*\<close> from the start of a text: the run up to the first line terminator, and what is
  left from that terminator on.
\<close>

fun before_terminator :: "string \<Rightarrow> string" where
  "before_terminator [] = []"
| "before_terminator (c # cs) =
     (if line_terminator_at (c # cs) \<noteq> [] then [] else c # before_terminator cs)"

fun from_terminator :: "string \<Rightarrow> string" where
  "from_terminator [] = []"
| "from_terminator (c # cs) =
     (if line_terminator_at (c # cs) \<noteq> [] then c # cs else from_terminator cs)"

text \<open>\<open>s.split(sep)\<close> for a one-character separator.\<close>

fun split_where :: "(char \<Rightarrow> bool) \<Rightarrow> string \<Rightarrow> string list" where
  "split_where P [] = [[]]"
| "split_where P (c # cs) =
     (if P c then [] # split_where P cs
      else (case split_where P cs of
              [] \<Rightarrow> [[c]]
            | l # ls \<Rightarrow> (c # l) # ls))"

definition split_on :: "char \<Rightarrow> string \<Rightarrow> string list" where
  "split_on sep s = split_where (\<lambda>c. c = sep) s"

text \<open>\<open>xs.join(sep)\<close>.\<close>

fun join :: "string \<Rightarrow> string list \<Rightarrow> string" where
  "join sep [] = []"
| "join sep [x] = x"
| "join sep (x # y # ys) = x @ sep @ join sep (y # ys)"

text \<open>\<open>s.includes(p)\<close> and \<open>s.endsWith(p)\<close>.\<close>

fun js_includes :: "string \<Rightarrow> string \<Rightarrow> bool" where
  "js_includes [] p = (p = [])"
| "js_includes (c # cs) p = (prefix p (c # cs) \<or> js_includes cs p)"

definition endsWith :: "string \<Rightarrow> string \<Rightarrow> bool" where
  "endsWith s p = prefix (rev p) (rev s)"

text \<open>
  A counter interpolated into a template string: the decimal digits of a natural number.
\<close>

definition digit_char :: "nat \<Rightarrow> char" where
  "digit_char d = ''0123456789'' ! d"

fun string_of_nat :: "nat \<Rightarrow> string" where
  "string_of_nat n =
     (if n < 10 then [digit_char n] else string_of_nat (n div 10) @ [digit_char (n mod 10)])"

declare string_of_nat.simps [simp del]

section \<open>The data model\<close>

text \<open>
  The declarations of \<open>./types\<close> are not among the sources; the records below hold the
  properties main.ts reads. Timestamps are epoch seconds, finite numbers parsed from
  JSON, hence rationals with their order. An absent or empty identifier is the empty
  string: both are falsy wherever main.ts tests them.
\<close>

datatype part = Str string | NonStr

record message =
  msg_id :: string
  author_role :: "string option"
  msg_create_time :: "rat option"
  parts :: "part list option"

text \<open>
  A value of \<open>chat.mapping\<close> is a node with an optional \<open>message\<close> sub-object
  (generateMessagesContent reads \<open>messageObj.message\<close>). getNewMessages passes the node
  itself where a ChatMessage is expected, so a node also carries the properties a
  ChatMessage is read at; on the nodes of an export all but the identifier are absent.
\<close>

record node = message +
  message_sub :: "message option"

record chat =
  chat_id :: string
  chat_title :: "string option"
  chat_create_time :: rat
  chat_update_time :: rat
  chat_mapping :: "(string \<times> node option) list"

record plugin_settings =
  archiveFolder :: string
  addDatePrefix :: bool
  dateFormat :: string

definition DEFAULT_SETTINGS :: plugin_settings where
  "DEFAULT_SETTINGS =
     \<lparr>archiveFolder = ''ChatGPT Archives'', addDatePrefix = False, dateFormat = ''YYYY-MM-DD''\<rparr>"

text \<open>
  The functions imported from \<open>./utils\<close> are not among the sources either: they are
  parameters of the model.
\<close>

datatype ts_format = DateFmt | TimeFmt | PrefixFmt

record utils =
  formatTimestamp :: "rat \<Rightarrow> ts_format \<Rightarrow> string"
  getYearMonthFolder :: "rat \<Rightarrow> string"
  formatTitle :: "string option \<Rightarrow> string"
  isValidMessage :: "message \<Rightarrow> bool"

text \<open>\<open>chat.title || 'Untitled'\<close>.\<close>

definition title_or_untitled :: "chat \<Rightarrow> string" where
  "title_or_untitled c =
     (case chat_title c of None \<Rightarrow> ''Untitled'' | Some t \<Rightarrow> if t = [] then ''Untitled'' else t)"

section \<open>Rendering messages and reading their markers back\<close>

definition uid_open :: string where
  "uid_open = ''<!-- UID: ''"

definition uid_close :: string where
  "uid_close = '' -->''"

text \<open>
  The lazy group \<open>(.*?)\<close> followed by a literal: the shortest run of characters other than
  line terminators after which the literal stands. The result is the captured run and the
  text after the literal.
\<close>

fun lazy_until :: "string \<Rightarrow> string \<Rightarrow> string \<Rightarrow> (string \<times> string) option" where
  "lazy_until close acc [] = (if close = [] then Some (acc, []) else None)"
| "lazy_until close acc (c # cs) =
     (if prefix close (c # cs) then Some (acc, drop (length close) (c # cs))
      else if line_terminator_at (c # cs) \<noteq> [] then None
      else lazy_until close (acc @ [c]) cs)"

lemma lazy_until_length:
  "lazy_until close acc t = Some (u, r) \<Longrightarrow> length r \<le> length t"
  by (induction close acc t rule: lazy_until.induct) (auto split: if_splits)

text \<open>
  extractMessageUIDsFromNote: the \<open>exec\<close> loop of \<open>/<!-- UID: (.*?) -->/g\<close>. A match is
  looked for at the leftmost position; after a match the search goes on behind it.
\<close>

function extractMessageUIDsFromNote :: "string \<Rightarrow> string list" where
  "extractMessageUIDsFromNote [] = []"
| "extractMessageUIDsFromNote (c # cs) =
     (if prefix uid_open (c # cs) then
        (case lazy_until uid_close [] (drop (length uid_open) (c # cs)) of
           Some (uid, rest) \<Rightarrow> uid # extractMessageUIDsFromNote rest
         | None \<Rightarrow> extractMessageUIDsFromNote cs)
      else extractMessageUIDsFromNote cs)"
  by pat_completeness auto
termination
proof (relation "measure length")
  show "wf (measure length)" by simp
next
  fix c cs x2 x y
  assume "prefix uid_open (c # cs)"
    and "lazy_until uid_close [] (drop (length uid_open) (c # cs)) = Some x2"
    and "(x, y) = x2"
  then have "length y \<le> length (drop (length uid_open) (c # cs))"
    using lazy_until_length [of uid_close "[]" _ x y] by metis
  then show "(y, c # cs) \<in> measure length"
    by (simp add: uid_open_def)
qed simp_all

text \<open>
  formatMessage. \<open>now\<close> stands for \<open>Date.now() / 1000\<close>, used when the message has no
  creation time. \<open>message_block\<close> is the heading and the quoted text, the value of
  \<open>messageContent\<close> before the marker is added.
\<close>

definition authorName :: "message \<Rightarrow> string" where
  "authorName m =
     (case author_role m of
        None \<Rightarrow> ''Unknown''
      | Some r \<Rightarrow> if r = ''user'' then ''User'' else ''ChatGPT'')"

definition string_parts :: "part list \<Rightarrow> string list" where
  "string_parts ps = concat (map (\<lambda>p. case p of Str s \<Rightarrow> [s] | NonStr \<Rightarrow> []) ps)"

definition message_block :: "utils \<Rightarrow> rat \<Rightarrow> message \<Rightarrow> string" where
  "message_block U now m =
     (let ct = (case msg_create_time m of
                  None \<Rightarrow> now
                | Some t \<Rightarrow> if t = 0 then now else t);
          messageTime = formatTimestamp U ct DateFmt @ '' at '' @ formatTimestamp U ct TimeFmt;
          headingLevel = (if authorName m = ''User'' then ''###'' else ''####'');
          quoteChar = (if authorName m = ''User'' then ''>'' else ''>>'');
          heading = headingLevel @ '' '' @ authorName m @ '', on '' @ messageTime @ '';'' @ [newline]
      in heading @
         (case parts m of
            None \<Rightarrow> quoteChar @ '' [No content]''
          | Some ps \<Rightarrow>
              if ps = [] then quoteChar @ '' [No content]''
              else join [newline]
                     (map (\<lambda>line. quoteChar @ '' '' @ line)
                        (split_on newline (join [newline] (string_parts ps))))))"

definition uid_marker :: "message \<Rightarrow> string" where
  "uid_marker m = uid_open @ (if msg_id m = [] then ''unknown'' else msg_id m) @ uid_close"

definition message_trailer :: "message \<Rightarrow> string" where
  "message_trailer m =
     [newline] @ (if authorName m = ''ChatGPT'' then [newline] @ ''---'' @ [newline] else [])
       @ [newline, newline]"

definition formatMessage :: "utils \<Rightarrow> rat \<Rightarrow> message \<Rightarrow> string" where
  "formatMessage U now m = message_block U now m @ [newline] @ uid_marker m @ message_trailer m"

text \<open>generateMessagesContent: the nodes in the order of \<open>for ... in\<close>.\<close>

definition rendered_message :: "utils \<Rightarrow> node option \<Rightarrow> message option" where
  "rendered_message U v =
     (case v of
        None \<Rightarrow> None
      | Some n \<Rightarrow>
          (case message_sub n of
             None \<Rightarrow> None
           | Some m \<Rightarrow> if isValidMessage U m then Some m else None))"

definition generateMessagesContent :: "utils \<Rightarrow> rat \<Rightarrow> chat \<Rightarrow> string" where
  "generateMessagesContent U now c =
     concat (map (\<lambda>(k, v). case rendered_message U v of
                              None \<Rightarrow> []
                            | Some m \<Rightarrow> formatMessage U now m)
               (chat_mapping c))"


text \<open>The conversation's messages, in the traversal order of the mapping.\<close>

definition mapping_values :: "chat \<Rightarrow> node list" where
  "mapping_values c =
     concat (map (\<lambda>(k, v). case v of None \<Rightarrow> [] | Some n \<Rightarrow> [n]) (chat_mapping c))"

definition chat_messages :: "chat \<Rightarrow> message list" where
  "chat_messages c =
     concat (map (\<lambda>n. case message_sub n of None \<Rightarrow> [] | Some m \<Rightarrow> [m]) (mapping_values c))"

section \<open>Merging into an existing note\<close>

text \<open>
  getNewMessages filters \<open>Object.values(chat.mapping)\<close>: the callback's \<open>message\<close> is the
  node, so the identifier tested and the object handed to isValidMessage are the node's.
\<close>

definition getNewMessages :: "utils \<Rightarrow> chat \<Rightarrow> string list \<Rightarrow> message list" where
  "getNewMessages U c existingMessageIds =
     map message.truncate
       (filter (\<lambda>n. msg_id n \<noteq> [] \<and> msg_id n \<notin> set existingMessageIds \<and>
                     isValidMessage U (message.truncate n))
          (mapping_values c))"

definition formatNewMessages :: "utils \<Rightarrow> rat \<Rightarrow> message list \<Rightarrow> string" where
  "formatNewMessages U now messages =
     join [newline, newline]
       (filter (\<lambda>formattedMessage. formattedMessage \<noteq> []) (map (formatMessage U now) messages))"

text \<open>
  \<open>content.replace(/^label.*$/m, replacement)\<close>. The pattern matches at the first position
  that starts a line and has the label before it; the match runs to the end of that line.
  \<open>bol\<close> says whether the position starts a line: the text starts one, and so does every
  position behind a line terminator.
  In the replacement \<open>$$\<close>, \<open>$&\<close>, \<open>$`\<close> and \<open>$'\<close> stand for a dollar, the match, the
  text before it and the text after it (the pattern has no group, so \<open>$1\<close> is literal).
\<close>

fun expand_replacement :: "string \<Rightarrow> string \<Rightarrow> string \<Rightarrow> string \<Rightarrow> string" where
  "expand_replacement pre m post [] = []"
| "expand_replacement pre m post [c] = [c]"
| "expand_replacement pre m post (c # d # r) =
     (if c = CHR ''$'' then
        (if d = CHR ''$'' then CHR ''$'' # expand_replacement pre m post r
         else if d = CHR ''&'' then m @ expand_replacement pre m post r
         else if d = CHR 0x60 then pre @ expand_replacement pre m post r
         else if d = CHR 0x27 then post @ expand_replacement pre m post r
         else c # expand_replacement pre m post (d # r))
      else c # expand_replacement pre m post (d # r))"

function find_line ::
  "string \<Rightarrow> bool \<Rightarrow> string \<Rightarrow> string \<Rightarrow> (string \<times> string \<times> string) option" where
  "find_line label bol pre [] = (if bol \<and> label = [] then Some (pre, [], []) else None)"
| "find_line label bol pre (c # cs) =
     (if bol \<and> prefix label (c # cs)
      then Some (pre, before_terminator (c # cs), from_terminator (c # cs))
      else if line_terminator_at (c # cs) \<noteq> []
      then find_line label True (pre @ line_terminator_at (c # cs))
             (drop (length (line_terminator_at (c # cs))) (c # cs))
      else find_line label False (pre @ [c]) cs)"
  by pat_completeness auto
termination
  by (relation "measure (\<lambda>(label, bol, pre, s). length s)") auto

definition replace_line :: "string \<Rightarrow> string \<Rightarrow> string \<Rightarrow> string" where
  "replace_line label replacement content =
     (case find_line label True [] content of
        None \<Rightarrow> content
      | Some (pre, m, post) \<Rightarrow> pre @ expand_replacement pre m post replacement @ post)"

definition updateTimeStr :: "utils \<Rightarrow> rat \<Rightarrow> string" where
  "updateTimeStr U t = formatTimestamp U t DateFmt @ '' at '' @ formatTimestamp U t TimeFmt"

definition updateMetadata :: "utils \<Rightarrow> string \<Rightarrow> rat \<Rightarrow> string" where
  "updateMetadata U content updateTime =
     (let content1 = replace_line ''update_time: ''
                       (''update_time: '' @ updateTimeStr U updateTime) content
      in replace_line ''Last Updated: '' (''Last Updated: '' @ updateTimeStr U updateTime) content1)"

text \<open>
  The callback updateExistingNote hands to \<open>vault.process\<close>: the new text of the note and
  the number added to \<open>totalNonEmptyMessagesAdded\<close>.
\<close>

definition merge_content :: "utils \<Rightarrow> rat \<Rightarrow> chat \<Rightarrow> string \<Rightarrow> string \<times> nat" where
  "merge_content U now c content =
     (let existingMessageIds = extractMessageUIDsFromNote content;
          newMessages = getNewMessages U c existingMessageIds;
          content1 = updateMetadata U content (chat_update_time c)
      in (content1 @ formatNewMessages U now newMessages, length newMessages))"

section \<open>File names\<close>

definition getFileName :: "utils \<Rightarrow> plugin_settings \<Rightarrow> chat \<Rightarrow> string" where
  "getFileName U S c =
     (let fileName = formatTitle U (chat_title c);
          fileName' = (if addDatePrefix S
                       then formatTimestamp U (chat_create_time c) PrefixFmt @ '' - '' @ fileName
                       else fileName)
      in fileName' @ ''.md'')"

text \<open>
  getUniqueFileName. \<open>existingConversations\<close> maps conversation identifiers to document
  paths; only its values are read. The counter is a natural number.
\<close>

definition name_taken :: "(string \<times> string) list \<Rightarrow> string \<Rightarrow> string \<Rightarrow> bool" where
  "name_taken existingConversations folderPath potentialFileName =
     list_ex (\<lambda>existingFile. js_includes existingFile folderPath \<and>
                             endsWith existingFile potentialFileName)
       (map snd existingConversations)"

definition numbered_name :: "string \<Rightarrow> nat \<Rightarrow> string" where
  "numbered_name fileName counter =
     take (length fileName - 3) fileName @ '' ('' @ string_of_nat counter @ '').md''"

lemma string_of_nat_bound: "n < 10 ^ length (string_of_nat n)"
proof (induction n rule: string_of_nat.induct)
  case (1 n)
  show ?case
  proof (cases "n < 10")
    case True
    then show ?thesis by (subst string_of_nat.simps) simp
  next
    case False
    with 1 have "n div 10 < 10 ^ length (string_of_nat (n div 10))" by simp
    then have "n < 10 * 10 ^ length (string_of_nat (n div 10))" by linarith
    with False show ?thesis by (subst string_of_nat.simps) simp
  qed
qed

definition paths_size :: "(string \<times> string) list \<Rightarrow> nat" where
  "paths_size existingConversations = sum_list (map (length \<circ> snd) existingConversations)"

lemma name_taken_length:
  "name_taken ex folderPath p \<Longrightarrow> length p \<le> paths_size ex"
proof -
  assume "name_taken ex folderPath p"
  then obtain f where f: "f \<in> set (map snd ex)" "endsWith f p"
    by (auto simp: name_taken_def list_ex_iff)
  from f(2) have "length p \<le> length f"
    using prefix_length_le [of "rev p" "rev f"] by (simp add: endsWith_def)
  moreover from f(1) have "length f \<le> paths_size ex"
    unfolding paths_size_def by (induction ex) force+
  ultimately show ?thesis by simp
qed

lemma numbered_name_taken_bound:
  assumes "name_taken ex folderPath (numbered_name fileName k)"
  shows "k < 10 ^ paths_size ex"
proof -
  have "length (string_of_nat k) \<le> length (numbered_name fileName k)"
    by (simp add: numbered_name_def)
  also have "\<dots> \<le> paths_size ex" using assms by (rule name_taken_length)
  finally have "(10::nat) ^ length (string_of_nat k) \<le> 10 ^ paths_size ex"
    by (simp add: power_increasing)
  with string_of_nat_bound [of k] show ?thesis by linarith
qed

function unique_loop ::
  "(string \<times> string) list \<Rightarrow> string \<Rightarrow> string \<Rightarrow> string \<Rightarrow> nat \<Rightarrow> string" where
  "unique_loop existingConversations folderPath fileName potentialFileName counter =
     (if name_taken existingConversations folderPath potentialFileName
      then unique_loop existingConversations folderPath fileName
             (numbered_name fileName counter) (counter + 1)
      else potentialFileName)"
  by pat_completeness auto
termination
proof (relation "measure (\<lambda>(ex, folderPath, fileName, p, counter).
         (10 ^ paths_size ex - counter) + (if name_taken ex folderPath p then 1 else 0))")
  show "wf (measure (\<lambda>(ex, folderPath, fileName, p, counter).
         (10 ^ paths_size ex - counter) + (if name_taken ex folderPath p then 1 else 0)))"
    by simp
next
  fix ex :: "(string \<times> string) list" and folderPath fileName p :: string and counter :: nat
  assume "name_taken ex folderPath p"
  then show "((ex, folderPath, fileName, numbered_name fileName counter, counter + 1),
              (ex, folderPath, fileName, p, counter))
             \<in> measure (\<lambda>(ex, folderPath, fileName, p, counter).
                 (10 ^ paths_size ex - counter) + (if name_taken ex folderPath p then 1 else 0))"
    using numbered_name_taken_bound [of ex folderPath fileName counter] by auto
qed

declare unique_loop.simps [simp del]

definition getUniqueFileName ::
  "utils \<Rightarrow> plugin_settings \<Rightarrow> chat \<Rightarrow> string \<Rightarrow> (string \<times> string) list \<Rightarrow> string" where
  "getUniqueFileName U S c folderPath existingConversations =
     (let fileName = getFileName U S c
      in unique_loop existingConversations folderPath fileName fileName 1)"

section \<open>Errors, the run log and the vault\<close>

text \<open>A thrown value, with the text of its \<open>message\<close> property.\<close>

datatype error =
  Error string
| ReferenceError string
| ChatGPTImportError string string

fun message_of :: "error \<Rightarrow> string" where
  "message_of (Error m) = m"
| "message_of (ReferenceError m) = m"
| "message_of (ChatGPTImportError m details) = m"

record log_entry =
  title :: string
  filePath :: string
  createDate :: string
  updateDate :: string
  reason :: "string option"
  errorMessage :: "string option"

record import_log =
  created :: "log_entry list"
  updated :: "log_entry list"
  skipped :: "log_entry list"
  errors :: "log_entry list"
  failed :: "log_entry list"
  globalErrors :: "(string \<times> string) list"
  summary :: "string option"

definition new_ImportLog :: import_log where
  "new_ImportLog =
     \<lparr>created = [], updated = [], skipped = [], errors = [], failed = [],
      globalErrors = [], summary = None\<rparr>"

definition addCreated :: "string \<Rightarrow> string \<Rightarrow> string \<Rightarrow> string \<Rightarrow> import_log \<Rightarrow> import_log" where
  "addCreated t p cd ud l =
     l\<lparr>created := created l @
         [\<lparr>title = t, filePath = p, createDate = cd, updateDate = ud,
           reason = None, errorMessage = None\<rparr>]\<rparr>"

definition addUpdated :: "string \<Rightarrow> string \<Rightarrow> string \<Rightarrow> string \<Rightarrow> import_log \<Rightarrow> import_log" where
  "addUpdated t p cd ud l =
     l\<lparr>updated := updated l @
         [\<lparr>title = t, filePath = p, createDate = cd, updateDate = ud,
           reason = None, errorMessage = None\<rparr>]\<rparr>"

definition addSkipped ::
  "string \<Rightarrow> string \<Rightarrow> string \<Rightarrow> string \<Rightarrow> string \<Rightarrow> import_log \<Rightarrow> import_log" where
  "addSkipped t p cd ud r l =
     l\<lparr>skipped := skipped l @
         [\<lparr>title = t, filePath = p, createDate = cd, updateDate = ud,
           reason = Some r, errorMessage = None\<rparr>]\<rparr>"

definition addFailed ::
  "string \<Rightarrow> string \<Rightarrow> string \<Rightarrow> string \<Rightarrow> string \<Rightarrow> import_log \<Rightarrow> import_log" where
  "addFailed t p cd ud e l =
     l\<lparr>failed := failed l @
         [\<lparr>title = t, filePath = p, createDate = cd, updateDate = ud,
           reason = None, errorMessage = Some e\<rparr>]\<rparr>"

definition addError :: "string \<Rightarrow> string \<Rightarrow> import_log \<Rightarrow> import_log" where
  "addError msg details l = l\<lparr>globalErrors := globalErrors l @ [(msg, details)]\<rparr>"

definition addSummary :: "nat \<Rightarrow> nat \<Rightarrow> nat \<Rightarrow> nat \<Rightarrow> import_log \<Rightarrow> import_log" where
  "addSummary totalExisting totalNew totalUpdated totalMessagesAdded l =
     l\<lparr>summary := Some
         ([newline] @ ''Summary:'' @ [newline]
          @ ''- Existing conversations: '' @ string_of_nat totalExisting @ [newline]
          @ ''- New conversations imported: '' @ string_of_nat totalNew @ [newline]
          @ ''- Conversations updated: '' @ string_of_nat totalUpdated @ [newline]
          @ ''- New messages added: '' @ string_of_nat totalMessagesAdded @ [newline])\<rparr>"

definition hasErrors :: "import_log \<Rightarrow> bool" where
  "hasErrors l = (length (errors l) > 0 \<or> length (failed l) > 0)"

text \<open>
  The document store is the host's: it is modelled as the notes with their text, the
  folders, and a table \<open>fault\<close> of the calls that throw, with the message of the error.
\<close>

datatype abstract_file = TFile string | TFolder

datatype vault_op = CreateFolder string | Create string | Modify string | Process string

record vault =
  files :: "(string \<times> string) list"
  folders :: "string list"
  fault :: "vault_op \<Rightarrow> string option"

definition getAbstractFileByPath :: "vault \<Rightarrow> string \<Rightarrow> abstract_file option" where
  "getAbstractFileByPath v p =
     (case map_of (files v) p of
        Some content \<Rightarrow> Some (TFile content)
      | None \<Rightarrow> if p \<in> set (folders v) then Some TFolder else None)"

definition exists_path :: "vault \<Rightarrow> string \<Rightarrow> bool" where
  "exists_path v p = (p \<in> set (map fst (files v)) \<or> p \<in> set (folders v))"

definition put_file :: "string \<Rightarrow> string \<Rightarrow> vault \<Rightarrow> vault" where
  "put_file p content v = v\<lparr>files := (p, content) # filter (\<lambda>(q, _). q \<noteq> p) (files v)\<rparr>"

definition createFolder :: "string \<Rightarrow> vault \<Rightarrow> error + vault" where
  "createFolder p v =
     (case fault v (CreateFolder p) of
        Some msg \<Rightarrow> Inl (Error msg)
      | None \<Rightarrow> if exists_path v p then Inl (Error ''Folder already exists.'')
                else Inr (v\<lparr>folders := p # folders v\<rparr>))"

definition vault_create :: "string \<Rightarrow> string \<Rightarrow> vault \<Rightarrow> error + vault" where
  "vault_create p content v =
     (case fault v (Create p) of
        Some msg \<Rightarrow> Inl (Error msg)
      | None \<Rightarrow> if exists_path v p then Inl (Error ''File already exists.'')
                else Inr (put_file p content v))"

definition vault_modify :: "string \<Rightarrow> string \<Rightarrow> vault \<Rightarrow> error + vault" where
  "vault_modify p content v =
     (case fault v (Modify p) of
        Some msg \<Rightarrow> Inl (Error msg)
      | None \<Rightarrow> Inr (put_file p content v))"

section \<open>The plugin\<close>

record conversation_record =
  path :: string
  updateTime :: rat

text \<open>
  \<open>conversationRecords\<close> is a plain object that starts as \<open>{}\<close>, so reading it at a name
  also finds what it inherits. It inherits the properties of \<open>Object.prototype\<close>, whose
  values are functions, and for \<open>__proto__\<close> the prototype itself. Writing it at \<open>__proto__\<close>
  makes the written record its prototype, which is what reading at \<open>__proto__\<close> then
  returns: the map below holds that record at \<open>__proto__\<close>, and from then on the object also
  inherits the record's \<open>path\<close> and \<open>updateTime\<close>, a string and a number. Writing at any
  other name makes an own property.
\<close>

definition Object_prototype_names :: "string list" where
  "Object_prototype_names =
     [''constructor'', ''__proto__'', ''hasOwnProperty'', ''isPrototypeOf'',
      ''propertyIsEnumerable'', ''toLocaleString'', ''toString'', ''valueOf'',
      ''__defineGetter__'', ''__defineSetter__'', ''__lookupGetter__'', ''__lookupSetter__'']"

text \<open>
  What \<open>this.conversationRecords[id]\<close> gives when it is truthy: a record, or an inherited
  value that is no record (a function, the prototype of all objects, a non-empty string,
  a number other than zero), whose \<open>path\<close> and \<open>updateTime\<close> are undefined.
\<close>

datatype record_value = Record conversation_record | Inherited

definition read_record :: "(string \<rightharpoonup> conversation_record) \<Rightarrow> string \<Rightarrow> record_value option" where
  "read_record records k =
     (case records k of
        Some r \<Rightarrow> Some (Record r)
      | None \<Rightarrow>
          if k \<in> set Object_prototype_names then Some Inherited
          else (case records ''__proto__'' of
                  None \<Rightarrow> None
                | Some p \<Rightarrow>
                    if k = ''path'' \<and> path p \<noteq> [] then Some Inherited
                    else if k = ''updateTime'' \<and> updateTime p \<noteq> 0 then Some Inherited
                    else None))"

text \<open>
  \<open>existingRecord.path\<close>: an undefined path reaches the vault's table of files and the
  report as the text \<open>undefined\<close>.
\<close>

definition record_path :: "record_value \<Rightarrow> string" where
  "record_path v = (case v of Record r \<Rightarrow> path r | Inherited \<Rightarrow> ''undefined'')"

record plugin =
  settings :: plugin_settings
  importedArchives :: "string \<rightharpoonup> (string \<times> string)"
  conversationRecords :: "string \<rightharpoonup> conversation_record"
  importLog :: import_log
  totalExistingConversations :: nat
  totalNewConversationsToImport :: nat
  totalNonEmptyMessagesToImport :: nat
  totalNonEmptyMessagesToAdd :: nat
  totalExistingConversationsToUpdate :: nat
  totalNewConversationsSuccessfullyImported :: nat
  totalConversationsActuallyUpdated :: nat
  totalNonEmptyMessagesAdded :: nat
  vault :: vault
  notices :: "string list"

definition logError :: "string \<Rightarrow> string \<Rightarrow> plugin \<Rightarrow> plugin" where
  "logError msg details s = s\<lparr>importLog := addError msg details (importLog s)\<rparr>"

definition Notice :: "string \<Rightarrow> plugin \<Rightarrow> plugin" where
  "Notice msg s = s\<lparr>notices := notices s @ [msg]\<rparr>"

text \<open>
  ensureFolderExists: the loop over the non-empty components of the path. The result is
  \<open>None\<close> for \<open>{success: true}\<close> and the error text otherwise.
\<close>

fun ensure_loop :: "string list \<Rightarrow> string \<Rightarrow> plugin \<Rightarrow> string option \<times> plugin" where
  "ensure_loop [] currentPath s = (None, s)"
| "ensure_loop (folder # rest) currentPath s =
     (let currentPath' = currentPath @ folder @ ''/'' in
      case getAbstractFileByPath (vault s) currentPath' of
        None \<Rightarrow>
          (case createFolder currentPath' (vault s) of
             Inr v' \<Rightarrow> ensure_loop rest currentPath' (s\<lparr>vault := v'\<rparr>)
           | Inl e \<Rightarrow>
               if message_of e \<noteq> ''Folder already exists.''
               then (Some (''Failed to create folder: '' @ currentPath' @ ''. Reason: '' @ message_of e),
                     logError (''Failed to create folder: '' @ currentPath') (message_of e) s)
               else ensure_loop rest currentPath' s)
      | Some TFolder \<Rightarrow> ensure_loop rest currentPath' s
      | Some (TFile content) \<Rightarrow>
          (Some (''Path exists but is not a folder: '' @ currentPath'), s))"

definition ensureFolderExists :: "string \<Rightarrow> plugin \<Rightarrow> string option \<times> plugin" where
  "ensureFolderExists folderPath s =
     ensure_loop (filter (\<lambda>p. p \<noteq> []) (split_on CHR ''/'' folderPath)) [] s"

definition writeToFile :: "string \<Rightarrow> string \<Rightarrow> plugin \<Rightarrow> (error + unit) \<times> plugin" where
  "writeToFile fileName content s =
     (case (case getAbstractFileByPath (vault s) fileName of
              Some (TFile old) \<Rightarrow> vault_modify fileName content (vault s)
            | Some TFolder \<Rightarrow> vault_create fileName content (vault s)
            | None \<Rightarrow> vault_create fileName content (vault s)) of
        Inr v' \<Rightarrow> (Inr (), s\<lparr>vault := v'\<rparr>)
      | Inl e \<Rightarrow>
          (Inl e, logError (''Error creating or modifying file '' @ [CHR 0x27] @ fileName @ [CHR 0x27])
                    (message_of e) s))"

definition date_time :: "utils \<Rightarrow> rat \<Rightarrow> string" where
  "date_time U t = formatTimestamp U t DateFmt @ '' '' @ formatTimestamp U t TimeFmt"

definition generateHeader :: "string \<Rightarrow> string \<Rightarrow> string \<Rightarrow> string \<Rightarrow> string" where
  "generateHeader ttl conversationId createTimeStr updateTimeStr' =
     ''---'' @ [newline]
     @ ''aliases: '' @ ttl @ [newline]
     @ ''conversation_id: '' @ conversationId @ [newline]
     @ ''create_time: '' @ createTimeStr @ [newline]
     @ ''update_time: '' @ updateTimeStr' @ [newline]
     @ ''---'' @ [newline]
     @ [newline]
     @ ''# Topic: '' @ ttl @ [newline]
     @ ''Created: '' @ createTimeStr @ [newline]
     @ ''Last Updated: '' @ updateTimeStr' @ [newline, newline]
     @ [newline]"

definition generateMarkdownContent :: "utils \<Rightarrow> rat \<Rightarrow> chat \<Rightarrow> string" where
  "generateMarkdownContent U now c =
     generateHeader (formatTitle U (chat_title c)) (chat_id c)
       (updateTimeStr U (chat_create_time c)) (updateTimeStr U (chat_update_time c))
     @ generateMessagesContent U now c"

text \<open>
  updateExistingNote. Nothing happens when the path is not a note. A throwing
  \<open>vault.process\<close> throws before it calls the callback; the error is caught here and not
  thrown again.
\<close>

definition updateExistingNote :: "utils \<Rightarrow> rat \<Rightarrow> chat \<Rightarrow> string \<Rightarrow> plugin \<Rightarrow> plugin" where
  "updateExistingNote U now c filePath' s =
     (case getAbstractFileByPath (vault s) filePath' of
        Some (TFile content) \<Rightarrow>
          (case fault (vault s) (Process filePath') of
             None \<Rightarrow>
               (let (content', n) = merge_content U now c content;
                    s1 = s\<lparr>totalConversationsActuallyUpdated := totalConversationsActuallyUpdated s + 1,
                           totalNonEmptyMessagesAdded := totalNonEmptyMessagesAdded s + n,
                           vault := put_file filePath' content' (vault s)\<rparr>
                in s1\<lparr>importLog := addUpdated (title_or_untitled c) filePath'
                          (date_time U (chat_create_time c)) (date_time U (chat_update_time c))
                          (importLog s1)\<rparr>)
           | Some msg \<Rightarrow>
               (let s1 = logError ''Error updating existing note'' msg s
                in s1\<lparr>importLog := addFailed (title_or_untitled c) filePath'
                          (date_time U (chat_create_time c)) (date_time U (chat_update_time c))
                          msg (importLog s1)\<rparr>))
      | Some TFolder \<Rightarrow> s
      | None \<Rightarrow> s)"

text \<open>
  createNewNote. In the catch block \<open>filePath\<close> is out of scope (it is a \<open>const\<close> of the try
  block), so evaluating the arguments of addFailed throws a ReferenceError after the first
  error was logged: no entry reaches the failed list, and the error that leaves the
  function is the ReferenceError.
\<close>

definition createNewNote ::
  "utils \<Rightarrow> rat \<Rightarrow> chat \<Rightarrow> string \<Rightarrow> (string \<times> string) list \<Rightarrow> plugin \<Rightarrow> (error + unit) \<times> plugin" where
  "createNewNote U now c folderPath existingConversations s =
     (let fileName = getUniqueFileName U (settings s) c folderPath existingConversations;
          filePath' = folderPath @ ''/'' @ fileName;
          content = generateMarkdownContent U now c
      in case writeToFile filePath' content s of
           (Inr u, s1) \<Rightarrow>
             (let s2 = s1\<lparr>importLog := addCreated (title_or_untitled c) filePath'
                             (date_time U (chat_create_time c)) (date_time U (chat_update_time c))
                             (importLog s1)\<rparr>
              in (Inr (),
                  s2\<lparr>totalNewConversationsSuccessfullyImported :=
                        totalNewConversationsSuccessfullyImported s2 + 1,
                      totalNonEmptyMessagesToImport :=
                        totalNonEmptyMessagesToImport s2
                        + length (filter (\<lambda>n. isValidMessage U (message.truncate n))
                                    (mapping_values c))\<rparr>))
         | (Inl e, s1) \<Rightarrow>
             (Inl (ReferenceError ''filePath is not defined''),
              logError ''Error creating new note'' (message_of e) s1))"

definition createFolderForChat :: "utils \<Rightarrow> chat \<Rightarrow> plugin \<Rightarrow> (error + string) \<times> plugin" where
  "createFolderForChat U c s =
     (let folderPath = archiveFolder (settings s) @ ''/'' @ getYearMonthFolder U (chat_create_time c)
      in case ensureFolderExists folderPath s of
           (None, s1) \<Rightarrow> (Inr folderPath, s1)
         | (Some err, s1) \<Rightarrow>
             (Inl (Error (''Failed to create or access folder: '' @ folderPath @ ''. '' @ err)), s1))"

text \<open>
  handleExistingChat. \<open>existingRecord.updateTime >= chat.update_time\<close> is false when the
  left side is undefined.
\<close>

definition handleExistingChat ::
  "utils \<Rightarrow> rat \<Rightarrow> chat \<Rightarrow> record_value \<Rightarrow> string \<Rightarrow> plugin \<Rightarrow> plugin" where
  "handleExistingChat U now c existingRecord folderPath s =
     (if (case existingRecord of
            Record r \<Rightarrow> updateTime r \<ge> chat_update_time c
          | Inherited \<Rightarrow> False)
      then s\<lparr>importLog := addSkipped (title_or_untitled c) (record_path existingRecord)
                 (formatTimestamp U (chat_create_time c) DateFmt)
                 (formatTimestamp U (chat_update_time c) DateFmt)
                 ''No Updates'' (importLog s)\<rparr>
      else updateExistingNote U now c (record_path existingRecord)
             (s\<lparr>totalExistingConversationsToUpdate := totalExistingConversationsToUpdate s + 1\<rparr>))"

definition handleNewChat ::
  "utils \<Rightarrow> rat \<Rightarrow> chat \<Rightarrow> string \<Rightarrow> (string \<times> string) list \<Rightarrow> plugin \<Rightarrow> (error + unit) \<times> plugin" where
  "handleNewChat U now c folderPath existingConversations s =
     createNewNote U now c folderPath existingConversations
       (s\<lparr>totalNewConversationsToImport := totalNewConversationsToImport s + 1\<rparr>)"

definition updateConversationRecord :: "utils \<Rightarrow> chat \<Rightarrow> string \<Rightarrow> plugin \<Rightarrow> plugin" where
  "updateConversationRecord U c folderPath s =
     s\<lparr>conversationRecords := (conversationRecords s)
         (chat_id c \<mapsto> \<lparr>path = folderPath @ ''/'' @ getFileName U (settings s) c,
                         updateTime = chat_update_time c\<rparr>)\<rparr>"

text \<open>processSingleChat: the body of its \<open>try\<close>, and the function with its \<open>catch\<close>.\<close>

definition processSingleChat_try ::
  "utils \<Rightarrow> rat \<Rightarrow> chat \<Rightarrow> (string \<times> string) list \<Rightarrow> plugin \<Rightarrow> (error + unit) \<times> plugin" where
  "processSingleChat_try U now c existingConversations s =
     (case createFolderForChat U c s of
        (Inl e, s1) \<Rightarrow> (Inl e, s1)
      | (Inr folderPath, s1) \<Rightarrow>
          (case read_record (conversationRecords s1) (chat_id c) of
             Some existingRecord \<Rightarrow>
               (Inr (), updateConversationRecord U c folderPath
                          (handleExistingChat U now c existingRecord folderPath s1))
           | None \<Rightarrow>
               (case handleNewChat U now c folderPath existingConversations s1 of
                  (Inl e, s2) \<Rightarrow> (Inl e, s2)
                | (Inr u, s2) \<Rightarrow> (Inr (), updateConversationRecord U c folderPath s2))))"

definition processSingleChat ::
  "utils \<Rightarrow> rat \<Rightarrow> chat \<Rightarrow> (string \<times> string) list \<Rightarrow> plugin \<Rightarrow> plugin" where
  "processSingleChat U now c existingConversations s =
     (case processSingleChat_try U now c existingConversations s of
        (Inr u, s1) \<Rightarrow> s1
      | (Inl chatError, s1) \<Rightarrow>
          logError (''Error processing chat: '' @ title_or_untitled c) (message_of chatError) s1)"

text \<open>The loop of processConversations over the conversations of the archive.\<close>

fun processChats ::
  "utils \<Rightarrow> rat \<Rightarrow> chat list \<Rightarrow> (string \<times> string) list \<Rightarrow> plugin \<Rightarrow> plugin" where
  "processChats U now [] existingConversations s = s"
| "processChats U now (c # cs) existingConversations s =
     processChats U now cs existingConversations
       (processSingleChat U now c existingConversations s)"

section \<open>The report of a run\<close>

text \<open>The pictographs of the report, as the bytes of their UTF-8 encoding.\<close>

definition emoji_created :: string where
  "emoji_created = [CHR 0xE2, CHR 0x9C, CHR 0xA8]"

definition emoji_updated :: string where
  "emoji_updated = [CHR 0xF0, CHR 0x9F, CHR 0x94, CHR 0x84]"

definition emoji_skipped :: string where
  "emoji_skipped = [CHR 0xE2, CHR 0x8F, CHR 0xAD, CHR 0xEF, CHR 0xB8, CHR 0x8F]"

definition emoji_failed :: string where
  "emoji_failed = [CHR 0xF0, CHR 0x9F, CHR 0x9A, CHR 0xAB]"

definition emoji_global :: string where
  "emoji_global = [CHR 0xE2, CHR 0x9A, CHR 0xA0, CHR 0xEF, CHR 0xB8, CHR 0x8F]"

text \<open>
  \<open>s.trim()\<close> takes white space and line terminators from both ends of a text: TAB, LF,
  VT, FF, CR, the space, U+00A0, U+1680, U+2000 to U+200A, U+2028, U+2029, U+202F, U+205F,
  U+3000 and U+FEFF, here in UTF-8.
\<close>

definition white_space :: "string list" where
  "white_space =
     [[CHR 0x09], [CHR 0x0A], [CHR 0x0B], [CHR 0x0C], [CHR 0x0D], [CHR 0x20],
      [CHR 0xC2, CHR 0xA0], [CHR 0xE1, CHR 0x9A, CHR 0x80],
      [CHR 0xE2, CHR 0x80, CHR 0x80], [CHR 0xE2, CHR 0x80, CHR 0x81],
      [CHR 0xE2, CHR 0x80, CHR 0x82], [CHR 0xE2, CHR 0x80, CHR 0x83],
      [CHR 0xE2, CHR 0x80, CHR 0x84], [CHR 0xE2, CHR 0x80, CHR 0x85],
      [CHR 0xE2, CHR 0x80, CHR 0x86], [CHR 0xE2, CHR 0x80, CHR 0x87],
      [CHR 0xE2, CHR 0x80, CHR 0x88], [CHR 0xE2, CHR 0x80, CHR 0x89],
      [CHR 0xE2, CHR 0x80, CHR 0x8A], LS, PS, [CHR 0xE2, CHR 0x80, CHR 0xAF],
      [CHR 0xE2, CHR 0x81, CHR 0x9F], [CHR 0xE3, CHR 0x80, CHR 0x80],
      [CHR 0xEF, CHR 0xBB, CHR 0xBF]]"

text \<open>The number of bytes of the sequence of the list that a text begins with, 0 for none.\<close>

definition starts_with :: "string list \<Rightarrow> string \<Rightarrow> nat" where
  "starts_with ws s = (case find (\<lambda>w. prefix w s) ws of None \<Rightarrow> 0 | Some w \<Rightarrow> length w)"

lemma starts_with_le: "starts_with ws s \<le> length s"
  by (auto simp: starts_with_def find_Some_iff prefix_length_le split: option.splits)

function strip :: "string list \<Rightarrow> string \<Rightarrow> string" where
  "strip ws s = (if starts_with ws s = 0 then s else strip ws (drop (starts_with ws s) s))"
  by pat_completeness auto
termination
proof (relation "measure (\<lambda>(ws, s). length s)")
  show "wf (measure (\<lambda>(ws, s). length s))" by simp
next
  fix ws :: "string list" and s :: string
  assume "starts_with ws s \<noteq> 0"
  then show "((ws, drop (starts_with ws s) s), (ws, s)) \<in> measure (\<lambda>(ws, s). length s)"
    using starts_with_le [of ws s] by auto
qed

declare strip.simps [simp del]

definition js_trim :: "string \<Rightarrow> string" where
  "js_trim s = rev (strip (map rev white_space) (rev (strip white_space s)))"

definition generateTable :: "string \<Rightarrow> log_entry list \<Rightarrow> string \<Rightarrow> string" where
  "generateTable ttl entries emoji =
     ''## '' @ ttl @ [newline, newline]
     @ ''| | Title | Created | Updated |'' @ [newline]
     @ ''|---|:---|:---:|:---:|'' @ [newline]
     @ concat (map (\<lambda>entry.
          (let sanitizedTitle =
                 js_trim (map (\<lambda>ch. if ch = newline then CHR '' '' else ch) (title entry))
           in ''| '' @ emoji @ '' | [['' @ filePath entry @ [CHR 0x5C] @ ''|'' @ sanitizedTitle
              @ '']] | '' @ createDate entry @ '' | '' @ updateDate entry @ '' |'' @ [newline]))
          entries)
     @ [newline, newline]"

definition generateErrorTable :: "string \<Rightarrow> (string \<times> string) list \<Rightarrow> string \<Rightarrow> string" where
  "generateErrorTable ttl entries emoji =
     ''## '' @ ttl @ [newline, newline]
     @ ''| | Error | Details |'' @ [newline]
     @ ''|---|:---|:---|'' @ [newline]
     @ concat (map (\<lambda>(msg, details).
          ''| '' @ emoji @ '' | '' @ msg @ '' | '' @ details @ '' |'' @ [newline]) entries)
     @ [newline, newline]"

definition generateLogContent :: "import_log \<Rightarrow> string" where
  "generateLogContent l =
     ''# ChatGPT Import Log'' @ [newline, newline]
     @ (case summary l of
          None \<Rightarrow> []
        | Some sm \<Rightarrow> if sm = [] then [] else sm @ [newline, newline])
     @ ''## Legend'' @ [newline]
     @ emoji_created @ '' Created | '' @ emoji_updated @ '' Updated | '' @ emoji_skipped
     @ '' Skipped | '' @ emoji_failed @ '' Failed | '' @ emoji_global @ '' Global Errors''
     @ [newline, newline]
     @ ''## Table of Contents'' @ [newline]
     @ (if length (created l) > 0 then ''- [Created Notes](#created-notes)'' @ [newline] else [])
     @ (if length (updated l) > 0 then ''- [Updated Notes](#updated-notes)'' @ [newline] else [])
     @ (if length (skipped l) > 0 then ''- [Skipped Notes](#skipped-notes)'' @ [newline] else [])
     @ (if length (failed l) > 0 then ''- [Failed Imports](#failed-imports)'' @ [newline] else [])
     @ (if length (globalErrors l) > 0 then ''- [Global Errors](#global-errors)'' @ [newline] else [])
     @ [newline]
     @ (if length (created l) > 0 then generateTable ''Created Notes'' (created l) emoji_created else [])
     @ (if length (updated l) > 0 then generateTable ''Updated Notes'' (updated l) emoji_updated else [])
     @ (if length (skipped l) > 0 then generateTable ''Skipped Notes'' (skipped l) emoji_skipped else [])
     @ (if length (failed l) > 0 then generateTable ''Failed Imports'' (failed l) emoji_failed else [])
     @ (if length (globalErrors l) > 0
        then generateErrorTable ''Global Errors'' (globalErrors l) emoji_global else [])"

text \<open>
  What one run is given from outside the plugin: the archive file with its digest, the
  names in the zip container (or the message of the error that loading it throws), the
  parsed \<open>conversations.json\<close> (or the message of the error that reading or parsing it
  throws), the map getAllExistingConversations collects from the notes, the answer to the
  confirmation dialog, and the clock.
\<close>

record run_env =
  file_name :: string
  file_hash :: string
  zip_entries :: "string + string list"
  conversations_json :: "string + chat list"
  existing_conversations :: "(string \<times> string) list"
  reimport_confirmed :: bool
  clock :: rat
  clock_iso :: string

definition vault_size :: "vault \<Rightarrow> nat" where
  "vault_size v = sum_list (map (length \<circ> fst) (files v)) + sum_list (map length (folders v))"

lemma exists_path_length: "exists_path v p \<Longrightarrow> length p \<le> vault_size v"
proof -
  have a: "p \<in> set (map fst fs) \<Longrightarrow> length p \<le> sum_list (map (length \<circ> fst) fs)"
    for fs :: "(string \<times> string) list"
    by (induction fs) force+
  have b: "p \<in> set ds \<Longrightarrow> length p \<le> sum_list (map length ds)" for ds :: "string list"
    by (induction ds) force+
  assume "exists_path v p"
  then consider "p \<in> set (map fst (files v))" | "p \<in> set (folders v)"
    by (auto simp: exists_path_def)
  then show ?thesis
  proof cases
    case 1
    then show ?thesis using a [of "files v"] by (simp add: vault_size_def)
  next
    case 2
    then show ?thesis using b [of "folders v"] by (simp add: vault_size_def)
  qed
qed

definition numbered_log_path :: "string \<Rightarrow> string \<Rightarrow> nat \<Rightarrow> string" where
  "numbered_log_path logFolderPath pfx counter =
     logFolderPath @ ''/'' @ pfx @ ''-'' @ string_of_nat counter @ '' - ChatGPT Import log.md''"

lemma numbered_log_path_bound:
  assumes "exists_path v (numbered_log_path logFolderPath pfx k)"
  shows "k < 10 ^ vault_size v"
proof -
  have "length (string_of_nat k) \<le> length (numbered_log_path logFolderPath pfx k)"
    by (simp add: numbered_log_path_def)
  also have "\<dots> \<le> vault_size v" using assms by (rule exists_path_length)
  finally have "(10::nat) ^ length (string_of_nat k) \<le> 10 ^ vault_size v"
    by (simp add: power_increasing)
  with string_of_nat_bound [of k] show ?thesis by linarith
qed

function log_path_loop :: "vault \<Rightarrow> string \<Rightarrow> string \<Rightarrow> string \<Rightarrow> nat \<Rightarrow> string" where
  "log_path_loop v logFolderPath pfx logFilePath counter =
     (if exists_path v logFilePath
      then log_path_loop v logFolderPath pfx
             (numbered_log_path logFolderPath pfx counter) (counter + 1)
      else logFilePath)"
  by pat_completeness auto
termination
proof (relation "measure (\<lambda>(v, logFolderPath, pfx, p, counter).
         (10 ^ vault_size v - counter) + (if exists_path v p then 1 else 0))")
  show "wf (measure (\<lambda>(v, logFolderPath, pfx, p, counter).
         (10 ^ vault_size v - counter) + (if exists_path v p then 1 else 0)))"
    by simp
next
  fix v :: vault and logFolderPath pfx p :: string and counter :: nat
  assume "exists_path v p"
  then show "((v, logFolderPath, pfx, numbered_log_path logFolderPath pfx counter, counter + 1),
              (v, logFolderPath, pfx, p, counter))
             \<in> measure (\<lambda>(v, logFolderPath, pfx, p, counter).
                 (10 ^ vault_size v - counter) + (if exists_path v p then 1 else 0))"
    using numbered_log_path_bound [of v logFolderPath pfx counter] by auto
qed

declare log_path_loop.simps [simp del]

definition log_file_content :: "utils \<Rightarrow> run_env \<Rightarrow> string \<Rightarrow> import_log \<Rightarrow> string" where
  "log_file_content U env zipFileName l =
     ''---'' @ [newline]
     @ ''importdate: '' @ date_time U (clock env) @ [newline]
     @ ''zipFile: '' @ zipFileName @ [newline]
     @ ''totalSuccessfulImports: '' @ string_of_nat (length (created l)) @ [newline]
     @ ''totalUpdatedImports: '' @ string_of_nat (length (updated l)) @ [newline]
     @ ''totalSkippedImports: '' @ string_of_nat (length (skipped l)) @ [newline]
     @ ''---'' @ [newline]
     @ [newline]
     @ ''# ChatGPT Import Log'' @ [newline]
     @ [newline]
     @ ''Imported ZIP file: '' @ zipFileName @ [newline]
     @ [newline]
     @ generateLogContent l @ [newline]"

definition writeImportLog :: "utils \<Rightarrow> run_env \<Rightarrow> string \<Rightarrow> plugin \<Rightarrow> plugin" where
  "writeImportLog U env zipFileName s =
     (let pfx = formatTimestamp U (clock env) PrefixFmt;
          logFileName = pfx @ '' - ChatGPT Import log.md'';
          logFolderPath = archiveFolder (settings s) @ ''/logs''
      in case ensureFolderExists logFolderPath s of
           (Some err, s1) \<Rightarrow>
             Notice ''Failed to create log file. Check console for details.''
               (logError (''Failed to create or access log folder: '' @ logFolderPath) err s1)
         | (None, s1) \<Rightarrow>
             (let logFilePath = log_path_loop (vault s1) logFolderPath pfx
                                  (logFolderPath @ ''/'' @ logFileName) 1
              in case writeToFile logFilePath (log_file_content U env zipFileName (importLog s1)) s1 of
                   (Inr u, s2) \<Rightarrow> s2
                 | (Inl e, s2) \<Rightarrow>
                     Notice ''Failed to create log file. Check console for details.''
                       (logError ''Failed to write import log'' (message_of e) s2)))"

section \<open>A run over an archive\<close>

definition validateZipFile :: "run_env \<Rightarrow> error + unit" where
  "validateZipFile env =
     (case zip_entries env of
        Inl msg \<Rightarrow> Inl (ChatGPTImportError ''Error validating zip file'' msg)
      | Inr fileNames \<Rightarrow>
          if ''conversations.json'' \<notin> set fileNames
          then Inl (ChatGPTImportError ''Invalid ZIP structure''
                      (''File '' @ [CHR 0x27] @ ''conversations.json'' @ [CHR 0x27]
                       @ '' not found in the zip''))
          else Inr ())"

definition initializeCounters :: "(string \<times> string) list \<Rightarrow> plugin \<Rightarrow> plugin" where
  "initializeCounters existingConversations s =
     s\<lparr>totalExistingConversations := length (remdups (map fst existingConversations)),
       totalNewConversationsToImport := 0,
       totalExistingConversationsToUpdate := 0,
       totalNewConversationsSuccessfullyImported := 0,
       totalConversationsActuallyUpdated := 0,
       totalNonEmptyMessagesToImport := 0,
       totalNonEmptyMessagesToAdd := 0,
       totalNonEmptyMessagesAdded := 0\<rparr>"

definition updateImportLog :: "plugin \<Rightarrow> plugin" where
  "updateImportLog s =
     s\<lparr>importLog := addSummary (totalExistingConversations s)
                       (totalNewConversationsSuccessfullyImported s)
                       (totalConversationsActuallyUpdated s)
                       (totalNonEmptyMessagesAdded s) (importLog s)\<rparr>"

definition processConversations :: "utils \<Rightarrow> run_env \<Rightarrow> plugin \<Rightarrow> plugin" where
  "processConversations U env s =
     (case conversations_json env of
        Inl msg \<Rightarrow> logError ''Error processing conversations'' msg s
      | Inr chats \<Rightarrow>
          updateImportLog
            (processChats U (clock env) chats (existing_conversations env)
               (initializeCounters (existing_conversations env) s)))"

text \<open>
  handleZipFile: the \<open>try\<close> block, then the \<open>catch\<close> and the \<open>finally\<close>. The \<open>return\<close> after a
  declined confirmation leaves the \<open>try\<close> block, and the \<open>finally\<close> block still runs.
  saveSettings copies the settings and the two maps to the plugin's data file, which is
  not part of the state modelled here.
\<close>

definition handleZipFile_try :: "utils \<Rightarrow> run_env \<Rightarrow> plugin \<Rightarrow> (error + unit) \<times> plugin" where
  "handleZipFile_try U env s =
     (if importedArchives s (file_hash env) \<noteq> None \<and> \<not> reimport_confirmed env
      then (Inr (), Notice ''Import cancelled.'' s)
      else case validateZipFile env of
             Inl e \<Rightarrow> (Inl e, s)
           | Inr u \<Rightarrow>
               (let s1 = processConversations U env s
                in (Inr (), s1\<lparr>importedArchives := (importedArchives s1)
                                  (file_hash env \<mapsto> (file_name env, clock_iso env))\<rparr>)))"

definition notice_error :: string where
  "notice_error = ''An error occurred during import. Please check the log file for details.''"

definition notice_success :: string where
  "notice_success = ''Import completed. Log file created in the archive folder.''"

definition handleZipFile :: "utils \<Rightarrow> run_env \<Rightarrow> plugin \<Rightarrow> plugin" where
  "handleZipFile U env s =
     (let (r, s1) = handleZipFile_try U env (s\<lparr>importLog := new_ImportLog\<rparr>);
          s2 = (case r of
                  Inl e \<Rightarrow> logError ''Error handling zip file'' (message_of e) s1
                | Inr u \<Rightarrow> s1);
          s3 = writeImportLog U env (file_name env) s2
      in Notice (if hasErrors (importLog s3) then notice_error else notice_success) s3)"

text \<open>
  A run over a list of conversations is without failure when no \<open>try\<close> block of
  processSingleChat is left by an error.
\<close>

fun run_ok :: "utils \<Rightarrow> rat \<Rightarrow> chat list \<Rightarrow> (string \<times> string) list \<Rightarrow> plugin \<Rightarrow> bool" where
  "run_ok U now [] existingConversations s = True"
| "run_ok U now (c # cs) existingConversations s =
     ((case fst (processSingleChat_try U now c existingConversations s) of
         Inl e \<Rightarrow> False
       | Inr u \<Rightarrow> True) \<and>
      run_ok U now cs existingConversations (processSingleChat U now c existingConversations s))"

definition run_without_failure :: "utils \<Rightarrow> run_env \<Rightarrow> plugin \<Rightarrow> bool" where
  "run_without_failure U env s =
     (case conversations_json env of
        Inl msg \<Rightarrow> False
      | Inr chats \<Rightarrow>
          run_ok U (clock env) chats (existing_conversations env)
            (initializeCounters (existing_conversations env) s))"

section \<open>An instance of the absent utilities, and small archives\<close>

text \<open>
  Modelled from the spec: isValidMessage of \<open>./utils\<close> is not among the sources. The spec
  says: a message is valid iff it has a non-empty author role association and at least one
  non-empty text segment.
\<close>

definition isValidMessage_spec :: "message \<Rightarrow> bool" where
  "isValidMessage_spec m =
     ((case author_role m of None \<Rightarrow> False | Some r \<Rightarrow> r \<noteq> []) \<and>
      (case parts m of
         None \<Rightarrow> False
       | Some ps \<Rightarrow> list_ex (\<lambda>sgm. sgm \<noteq> []) (string_parts ps)))"

text \<open>
  Modelled from the spec: formatTimestamp, getYearMonthFolder and formatTitle of \<open>./utils\<close>
  are not among the sources, and the spec fixes no format. This instance serves the closed
  examples, whose timestamps all lie on 5 January 2024: it prints that day, the time as
  the second of the day, and a title without the characters a file name cannot hold, cut
  at 100 characters.
\<close>

definition example_utils :: utils where
  "example_utils =
     \<lparr>formatTimestamp =
        (\<lambda>t f. case f of
                  DateFmt \<Rightarrow> ''2024-01-05''
                | TimeFmt \<Rightarrow> string_of_nat (nat \<lfloor>t\<rfloor> mod 86400)
                | PrefixFmt \<Rightarrow> ''2024-01-05''),
      getYearMonthFolder = (\<lambda>t. ''2024/01''),
      formatTitle =
        (\<lambda>t. case t of
                None \<Rightarrow> ''Untitled''
              | Some ttl \<Rightarrow> take 100 (filter (\<lambda>c. c \<notin> set ''<>:/|?*'') ttl)),
      isValidMessage = isValidMessage_spec\<rparr>"

definition user_message :: "string \<Rightarrow> string \<Rightarrow> message" where
  "user_message i txt =
     \<lparr>msg_id = i, author_role = Some ''user'', msg_create_time = Some 1704412800,
      parts = Some [Str txt]\<rparr>"

text \<open>A node as an export holds it: the identifier and the message sub-object.\<close>

definition node_of :: "message \<Rightarrow> node" where
  "node_of m =
     \<lparr>msg_id = msg_id m, author_role = None, msg_create_time = None, parts = None,
      message_sub = Some m\<rparr>"

definition example_chat :: "string \<Rightarrow> string \<Rightarrow> rat \<Rightarrow> message list \<Rightarrow> chat" where
  "example_chat i ttl u ms =
     \<lparr>chat_id = i, chat_title = Some ttl, chat_create_time = 1704412800, chat_update_time = u,
      chat_mapping = map (\<lambda>m. (msg_id m, Some (node_of m))) ms\<rparr>"

definition empty_vault :: vault where
  "empty_vault = \<lparr>files = [], folders = [], fault = (\<lambda>op. None)\<rparr>"

definition fresh_plugin :: "vault \<Rightarrow> plugin" where
  "fresh_plugin v =
     \<lparr>settings = DEFAULT_SETTINGS, importedArchives = Map.empty, conversationRecords = Map.empty,
      importLog = new_ImportLog,
      totalExistingConversations = 0, totalNewConversationsToImport = 0,
      totalNonEmptyMessagesToImport = 0, totalNonEmptyMessagesToAdd = 0,
      totalExistingConversationsToUpdate = 0, totalNewConversationsSuccessfullyImported = 0,
      totalConversationsActuallyUpdated = 0, totalNonEmptyMessagesAdded = 0,
      vault = v, notices = []\<rparr>"

definition chat_paths :: "(string \<times> string) list" where
  "chat_paths = [(''a'', ''ChatGPT Archives/2024/01/Chat.md''),
                 (''b'', ''ChatGPT Archives/2024/01/My Chat (1).md'')]"

text \<open>
  One conversation in two states of an export: as first imported, and later with a second
  message and a later update time.
\<close>

definition chat_v1 :: chat where
  "chat_v1 = example_chat ''c1'' ''T'' 1704412805 [user_message ''m1'' ''hello'']"

definition chat_v2 :: chat where
  "chat_v2 = example_chat ''c1'' ''T'' 1704412900
               [user_message ''m1'' ''hello'', user_message ''m2'' ''more'']"

definition note_path :: string where
  "note_path = ''ChatGPT Archives/2024/01/T.md''"

definition archive_folders :: "string list" where
  "archive_folders =
     [''ChatGPT Archives/2024/01/'', ''ChatGPT Archives/2024/'', ''ChatGPT Archives/'']"

text \<open>The vault and the plugin after the first state was imported.\<close>

definition synced_vault :: vault where
  "synced_vault =
     \<lparr>files = [(note_path, generateMarkdownContent example_utils 0 chat_v1)],
      folders = archive_folders, fault = (\<lambda>op. None)\<rparr>"

definition synced_plugin :: "vault \<Rightarrow> plugin" where
  "synced_plugin v =
     (fresh_plugin v)\<lparr>conversationRecords :=
        [''c1'' \<mapsto> \<lparr>path = note_path, updateTime = 1704412805\<rparr>]\<rparr>"

text \<open>Vaults in which one call throws.\<close>

definition process_fault :: vault where
  "process_fault =
     synced_vault\<lparr>fault := (\<lambda>op. if op = Process note_path then Some ''disk full'' else None)\<rparr>"

definition create_fault :: vault where
  "create_fault =
     empty_vault\<lparr>fault := (\<lambda>op. if op = Create note_path then Some ''disk full'' else None)\<rparr>"

definition folder_fault :: vault where
  "folder_fault =
     empty_vault\<lparr>fault := (\<lambda>op. if op = CreateFolder ''ChatGPT Archives/2024/''
                                   then Some ''EACCES'' else None)\<rparr>"

definition recovered :: "plugin \<Rightarrow> plugin" where
  "recovered s = s\<lparr>vault := (vault s)\<lparr>fault := (\<lambda>op. None)\<rparr>\<rparr>"

text \<open>An archive with the given conversations, and one without \<open>conversations.json\<close>.\<close>

definition archive_env :: "chat list \<Rightarrow> run_env" where
  "archive_env chats =
     \<lparr>file_name = ''export.zip'', file_hash = ''3a7bd3e2'',
      zip_entries = Inr [''chat.html'', ''conversations.json''],
      conversations_json = Inr chats, existing_conversations = [],
      reimport_confirmed = True, clock = 1704412950,
      clock_iso = ''2024-01-05T00:02:30.000Z''\<rparr>"

definition invalid_env :: run_env where
  "invalid_env = (archive_env [chat_v1])\<lparr>zip_entries := Inr [''chat.html'', ''user.json'']\<rparr>"

text \<open>A new conversation titled like a note that is already in its folder.\<close>

definition chat_hello :: chat where
  "chat_hello = example_chat ''c9'' ''Hello'' 1704412805 [user_message ''m1'' ''hi'']"

definition hello_vault :: vault where
  "hello_vault =
     \<lparr>files = [(''ChatGPT Archives/2024/01/Hello.md'', ''another conversation'')],
      folders = archive_folders, fault = (\<lambda>op. None)\<rparr>"

text \<open>
  A second new conversation with the same title, a conversation whose identifier is the
  name of an inherited property, and the first conversation as an export older than the
  imported one holds it.
\<close>

definition chat_hello_again :: chat where
  "chat_hello_again = example_chat ''c10'' ''Hello'' 1704412806 [user_message ''m2'' ''ho'']"

definition chat_constructor :: chat where
  "chat_constructor = example_chat ''constructor'' ''T'' 1704412805 [user_message ''m1'' ''hello'']"

definition chat_v0 :: chat where
  "chat_v0 = example_chat ''c1'' ''T'' 1704412700 [user_message ''m1'' ''hello'']"

section \<open>Notions the properties are stated with\<close>

text \<open>A text holds a line terminator when one of the four occurs in it.\<close>

definition has_line_terminator :: "string \<Rightarrow> bool" where
  "has_line_terminator s =
     (js_includes s [CHR 0x0A] \<or> js_includes s [CHR 0x0D] \<or> js_includes s LS \<or> js_includes s PS)"

text \<open>\<open>clean u r\<close>: no line terminator begins inside \<open>u\<close> when \<open>r\<close> follows it.\<close>

definition clean :: "string \<Rightarrow> string \<Rightarrow> bool" where
  "clean u r = (\<forall>i<length u. line_terminator_at (drop i u @ r) = [])"

text \<open>
  A message is safe for its marker when its identifier is not empty, holds no line
  terminator and no \<open>" -->"\<close>, and its heading and quoted text hold no \<open>"<!-- UID: "\<close>.
\<close>

definition marker_safe :: "utils \<Rightarrow> rat \<Rightarrow> message \<Rightarrow> bool" where
  "marker_safe U now m =
     (msg_id m \<noteq> [] \<and> \<not> has_line_terminator (msg_id m) \<and>
      \<not> js_includes (msg_id m) uid_close \<and>
      \<not> js_includes (message_block U now m) uid_open)"

text \<open>
  The lines of a text, each with the line terminator that ends it (the last line has
  none): a text is its lines and their terminators in turn. Then the update of the first
  element of a list that fits.
\<close>

function split_lines :: "string \<Rightarrow> (string \<times> string) list" where
  "split_lines [] = [([], [])]"
| "split_lines (c # cs) =
     (if line_terminator_at (c # cs) \<noteq> []
      then ([], line_terminator_at (c # cs))
           # split_lines (drop (length (line_terminator_at (c # cs))) (c # cs))
      else (case split_lines cs of
              [] \<Rightarrow> [([c], [])]
            | (l, t) # ls \<Rightarrow> (c # l, t) # ls))"
  by pat_completeness auto
termination
  by (relation "measure length") auto

definition js_lines :: "string \<Rightarrow> string list" where
  "js_lines s = map fst (split_lines s)"

definition line_terminators :: "string \<Rightarrow> string list" where
  "line_terminators s = map snd (split_lines s)"

fun map_first :: "('a \<Rightarrow> bool) \<Rightarrow> ('a \<Rightarrow> 'a) \<Rightarrow> 'a list \<Rightarrow> 'a list" where
  "map_first P f [] = []"
| "map_first P f (x # xs) = (if P x then f x # xs else x # map_first P f xs)"

text \<open>
  replace_line for a replacement that holds no dollar sign: the match is replaced by the
  replacement as it stands. \<open>bol\<close> says whether the text starts a line.
\<close>

definition rl :: "string \<Rightarrow> string \<Rightarrow> bool \<Rightarrow> string \<Rightarrow> string" where
  "rl label new bol s =
     (case find_line label bol [] s of None \<Rightarrow> s | Some (p, m, q) \<Rightarrow> p @ new @ q)"



text \<open>
  \<open>quiet s s'\<close>: the state \<open>s'\<close> differs from \<open>s\<close> at most in the folders of the vault and in
  the list of global errors.
\<close>

definition quiet :: "plugin \<Rightarrow> plugin \<Rightarrow> bool" where
  "quiet s s' =
     (settings s' = settings s \<and> importedArchives s' = importedArchives s \<and>
      conversationRecords s' = conversationRecords s \<and>
      created (importLog s') = created (importLog s) \<and>
      updated (importLog s') = updated (importLog s) \<and>
      skipped (importLog s') = skipped (importLog s) \<and>
      errors (importLog s') = errors (importLog s) \<and>
      failed (importLog s') = failed (importLog s) \<and>
      summary (importLog s') = summary (importLog s) \<and>
      totalExistingConversations s' = totalExistingConversations s \<and>
      totalNewConversationsToImport s' = totalNewConversationsToImport s \<and>
      totalNonEmptyMessagesToImport s' = totalNonEmptyMessagesToImport s \<and>
      totalNonEmptyMessagesToAdd s' = totalNonEmptyMessagesToAdd s \<and>
      totalExistingConversationsToUpdate s' = totalExistingConversationsToUpdate s \<and>
      totalNewConversationsSuccessfullyImported s' = totalNewConversationsSuccessfullyImported s \<and>
      totalConversationsActuallyUpdated s' = totalConversationsActuallyUpdated s \<and>
      totalNonEmptyMessagesAdded s' = totalNonEmptyMessagesAdded s \<and>
      files (vault s') = files (vault s) \<and> fault (vault s') = fault (vault s) \<and>
      notices s' = notices s)"

text \<open>
  \<open>untouched s s'\<close>: between \<open>s\<close> and \<open>s'\<close> no note was written and nothing was counted or
  logged as created, updated or failed.
\<close>

definition untouched :: "plugin \<Rightarrow> plugin \<Rightarrow> bool" where
  "untouched s s' =
     (files (vault s') = files (vault s) \<and>
      created (importLog s') = created (importLog s) \<and>
      updated (importLog s') = updated (importLog s) \<and>
      failed (importLog s') = failed (importLog s) \<and>
      totalNewConversationsToImport s' = totalNewConversationsToImport s \<and>
      totalNonEmptyMessagesToImport s' = totalNonEmptyMessagesToImport s \<and>
      totalExistingConversationsToUpdate s' = totalExistingConversationsToUpdate s \<and>
      totalNewConversationsSuccessfullyImported s' = totalNewConversationsSuccessfullyImported s \<and>
      totalConversationsActuallyUpdated s' = totalConversationsActuallyUpdated s \<and>
      totalNonEmptyMessagesAdded s' = totalNonEmptyMessagesAdded s)"


section \<open>Line terminators\<close>

lemma js_includes_sublist: "js_includes s p \<longleftrightarrow> sublist p s"
  by (induction s) (auto simp: sublist_Cons_right)

lemma lta_Nil [simp]: "line_terminator_at [] = []"
  by (simp add: line_terminator_at_def LS_def PS_def)

lemma lta_cases:
  "line_terminator_at s = [] \<or> line_terminator_at s = [CHR 0x0A] \<or> line_terminator_at s = [CHR 0x0D]
   \<or> line_terminator_at s = LS \<or> line_terminator_at s = PS"
  by (simp add: line_terminator_at_def)

lemma lta_prefix: "prefix (line_terminator_at s) s"
  by (simp add: line_terminator_at_def)

lemma lta_terminator:
  "t = [CHR 0x0A] \<or> t = [CHR 0x0D] \<or> t = LS \<or> t = PS \<Longrightarrow> line_terminator_at (t @ x) = t"
  by (auto simp: line_terminator_at_def LS_def PS_def)

lemma lta_split:
  assumes "line_terminator_at s \<noteq> []"
  shows "s = line_terminator_at s @ drop (length (line_terminator_at s)) s"
  using lta_prefix [of s] by (metis append_eq_conv_conj prefix_def)

lemma lta_self:
  "line_terminator_at s \<noteq> [] \<Longrightarrow> line_terminator_at (line_terminator_at s @ x) = line_terminator_at s"
  using lta_cases [of s] lta_terminator by blast

lemma lta_first:
  "line_terminator_at (c # cs) \<noteq> [] \<Longrightarrow> c = CHR 0x0A \<or> c = CHR 0x0D \<or> c = CHR 0xE2"
  by (auto simp: line_terminator_at_def LS_def PS_def split: if_splits)

lemma split_lines_nonempty: "split_lines s \<noteq> []"
  by (induction s rule: split_lines.induct) (auto split: list.splits)

lemma split_lines_terminator:
  assumes "line_terminator_at s \<noteq> []"
  shows "split_lines (line_terminator_at s @ x) = ([], line_terminator_at s) # split_lines x"
proof -
  obtain c cs where cc: "line_terminator_at s @ x = c # cs"
    using assms by (cases "line_terminator_at s @ x") auto
  have l: "line_terminator_at (c # cs) = line_terminator_at s"
    using lta_self [OF assms, of x] cc by simp
  have "drop (length (line_terminator_at s)) (c # cs) = x" using cc [symmetric] by simp
  then show ?thesis unfolding cc using l assms by simp
qed

lemma split_lines_char:
  assumes "line_terminator_at (c # cs) = []"
  shows "split_lines (c # cs) =
           (c # fst (hd (split_lines cs)), snd (hd (split_lines cs))) # tl (split_lines cs)"
  using assms split_lines_nonempty [of cs] by (auto split: list.splits)

text \<open>A text is its lines and their terminators in turn.\<close>

lemma split_lines_concat: "concat (map (\<lambda>(l, t). l @ t) (split_lines s)) = s"
proof (induction s rule: split_lines.induct)
  case 1
  then show ?case by simp
next
  case (2 c cs)
  show ?case
  proof (cases "line_terminator_at (c # cs) = []")
    case True
    then show ?thesis using 2 split_lines_nonempty [of cs] by (auto split: list.splits)
  next
    case False
    then show ?thesis using 2 lta_split [OF False] by simp
  qed
qed

lemma before_from: "before_terminator s @ from_terminator s = s"
  by (induction s) auto

lemma from_terminator_cases:
  "from_terminator s = [] \<or> line_terminator_at (from_terminator s) \<noteq> []"
  by (induction s) auto

lemma split_lines_from:
  "split_lines s = (before_terminator s, snd (hd (split_lines (from_terminator s))))
                   # tl (split_lines (from_terminator s)) \<and>
   fst (hd (split_lines (from_terminator s))) = []"
proof (induction s)
  case Nil
  then show ?case by simp
next
  case (Cons c cs)
  show ?case
  proof (cases "line_terminator_at (c # cs) = []")
    case True
    then show ?thesis using Cons by (simp add: split_lines_char)
  next
    case False
    then show ?thesis by simp
  qed
qed

lemma clean_Nil [simp]: "clean [] r"
  by (simp add: clean_def)

lemma clean_Cons:
  "clean (c # cs) r \<longleftrightarrow> line_terminator_at (c # cs @ r) = [] \<and> clean cs r"
proof
  assume a: "clean (c # cs) r"
  have "line_terminator_at (c # cs @ r) = []" using a [unfolded clean_def, rule_format, of 0] by simp
  moreover have "clean cs r"
    unfolding clean_def
  proof (intro allI impI)
    fix i assume "i < length cs"
    then show "line_terminator_at (drop i cs @ r) = []"
      using a [unfolded clean_def, rule_format, of "Suc i"] by simp
  qed
  ultimately show "line_terminator_at (c # cs @ r) = [] \<and> clean cs r" by simp
next
  assume a: "line_terminator_at (c # cs @ r) = [] \<and> clean cs r"
  show "clean (c # cs) r"
    unfolding clean_def
  proof (intro allI impI)
    fix i assume "i < length (c # cs)"
    then show "line_terminator_at (drop i (c # cs) @ r) = []"
      using a by (cases i) (auto simp: clean_def)
  qed
qed

lemma clean_append: "clean a (b @ r) \<Longrightarrow> clean b r \<Longrightarrow> clean (a @ b) r"
  by (induction a) (auto simp: clean_Cons)

lemma clean_plain:
  "\<forall>x\<in>set u. x \<noteq> CHR 0x0A \<and> x \<noteq> CHR 0x0D \<and> x \<noteq> CHR 0xE2 \<Longrightarrow> clean u r"
proof (induction u)
  case Nil
  then show ?case by simp
next
  case (Cons c cs)
  then have "line_terminator_at (c # cs @ r) = []" using lta_first [of c "cs @ r"] by auto
  with Cons show ?case by (simp add: clean_Cons)
qed

text \<open>
  A text that holds no line terminator is clean before every text that does not begin
  with the second or third byte of a separator.
\<close>

lemma clean_no_terminator:
  assumes "\<not> has_line_terminator u"
    and "r = [] \<or> (hd r \<noteq> CHR 0x80 \<and> hd r \<noteq> CHR 0xA8 \<and> hd r \<noteq> CHR 0xA9)"
  shows "clean u r"
  unfolding clean_def
proof (intro allI impI)
  fix i assume i: "i < length u"
  have n: "\<not> sublist [CHR 0x0A] u" "\<not> sublist [CHR 0x0D] u" "\<not> sublist LS u" "\<not> sublist PS u"
    using assms(1) by (simp_all add: has_line_terminator_def js_includes_sublist)
  have sub: "prefix p (drop i u) \<Longrightarrow> sublist p u" for p
    using prefix_imp_sublist sublist_drop sublist_order.order_trans by blast
  have sep: "\<not> prefix [CHR 0xE2, CHR 0x80, z] (drop i u @ r)"
    if z: "z = CHR 0xA8 \<or> z = CHR 0xA9" and ns: "\<not> sublist [CHR 0xE2, CHR 0x80, z] u" for z
  proof
    assume "prefix [CHR 0xE2, CHR 0x80, z] (drop i u @ r)"
    then consider "prefix [CHR 0xE2, CHR 0x80, z] (drop i u)"
      | us where "[CHR 0xE2, CHR 0x80, z] = drop i u @ us" "prefix us r" "us \<noteq> []"
      by (metis append_Nil2 prefix_append prefix_order.order_refl)
    then show False
    proof cases
      case 1
      then show False using sub ns by blast
    next
      case 2
      have ne: "drop i u \<noteq> []" using i by simp
      from 2(2,3) have r: "r \<noteq> []" "hd r = hd us" by (auto simp: prefix_def)
      from 2(1) ne 2(3) have "hd us = CHR 0x80 \<or> hd us = z"
        by (auto simp: append_eq_Cons_conv Cons_eq_append_conv)
      with r z assms(2) show False by auto
    qed
  qed
  have one: "\<not> prefix [z] (drop i u @ r)" if ns: "\<not> sublist [z] u" for z
  proof
    assume "prefix [z] (drop i u @ r)"
    moreover have "drop i u \<noteq> []" using i by simp
    ultimately have "prefix [z] (drop i u)" by (cases "drop i u") auto
    then show False using sub ns by blast
  qed
  show "line_terminator_at (drop i u @ r) = []"
    unfolding line_terminator_at_def
    using one [OF n(1)] one [OF n(2)] sep [of "CHR 0xA8"] sep [of "CHR 0xA9"] n(3,4)
    by (simp add: LS_def PS_def)
qed

lemma before_clean: "clean u r \<Longrightarrow> before_terminator (u @ r) = u @ before_terminator r"
  by (induction u) (auto simp: clean_Cons)

lemma from_clean: "clean u r \<Longrightarrow> from_terminator (u @ r) = from_terminator r"
  by (induction u) (auto simp: clean_Cons)

lemma split_lines_clean:
  "clean u r \<Longrightarrow>
   split_lines (u @ r) = (u @ fst (hd (split_lines r)), snd (hd (split_lines r))) # tl (split_lines r)"
proof (induction u)
  case Nil
  then show ?case using split_lines_nonempty [of r] by simp
next
  case (Cons c cs)
  then have l: "line_terminator_at (c # cs @ r) = []" and c: "clean cs r"
    by (simp_all add: clean_Cons)
  show ?case using split_lines_char [OF l] Cons.IH [OF c] by simp
qed

section \<open>Markers survive rendering\<close>

lemma extract_skip:
  "(\<forall>i<length xs. \<not> prefix uid_open (drop i (xs @ rest))) \<Longrightarrow>
   extractMessageUIDsFromNote (xs @ rest) = extractMessageUIDsFromNote rest"
proof (induction xs)
  case Nil
  then show ?case by simp
next
  case (Cons c cs)
  have "\<not> prefix uid_open ((c # cs) @ rest)"
    using Cons.prems [rule_format, of 0] by simp
  moreover have "\<forall>i<length cs. \<not> prefix uid_open (drop i (cs @ rest))"
  proof (intro allI impI)
    fix i assume "i < length cs"
    then show "\<not> prefix uid_open (drop i (cs @ rest))"
      using Cons.prems [rule_format, of "Suc i"] by simp
  qed
  ultimately show ?case using Cons.IH by simp
qed

lemma no_occurrence_before:
  assumes "\<not> sublist P xs" and "c \<notin> set P" and "P \<noteq> []" and "i \<le> length xs"
  shows "\<not> prefix P (drop i (xs @ c # rest))"
proof
  assume "prefix P (drop i (xs @ c # rest))"
  then have "prefix P (drop i xs @ c # rest)" using assms(4) by simp
  then consider "prefix P (drop i xs)" | us where "P = drop i xs @ us" "prefix us (c # rest)"
    by (auto simp: prefix_append)
  then show False
  proof cases
    case 1
    then have "sublist P (drop i xs)" by (rule prefix_imp_sublist)
    then have "sublist P xs" using sublist_drop sublist_order.order_trans by blast
    with assms(1) show False by simp
  next
    case 2
    show False
    proof (cases us)
      case Nil
      with 2 have "P = drop i xs" by simp
      then have "sublist P xs" by (metis sublist_drop)
      with assms(1) show False by simp
    next
      case (Cons u us')
      with 2 have "u = c" by simp
      with 2 Cons assms(2) show False by simp
    qed
  qed
qed

lemma extract_skip_plain:
  "CHR ''<'' \<notin> set xs \<Longrightarrow>
   extractMessageUIDsFromNote (xs @ rest) = extractMessageUIDsFromNote rest"
  by (induction xs) (auto simp: uid_open_def)

lemma lazy_until_here: "lazy_until close acc (close @ rest) = Some (acc, rest)"
proof (cases "close @ rest")
  case Nil
  then show ?thesis by simp
next
  case (Cons c cs)
  have "prefix close (c # cs)" using Cons [symmetric] by simp
  moreover have "drop (length close) (c # cs) = rest" using Cons [symmetric] by simp
  ultimately show ?thesis using Cons by simp
qed

lemma lazy_until_found:
  "clean u (close @ rest) \<Longrightarrow>
   (\<forall>i<length u. \<not> prefix close (drop i (u @ close @ rest))) \<Longrightarrow>
   lazy_until close acc (u @ close @ rest) = Some (acc @ u, rest)"
proof (induction u arbitrary: acc)
  case Nil
  then show ?case by (simp add: lazy_until_here)
next
  case (Cons c cs)
  have "\<not> prefix close ((c # cs) @ close @ rest)"
    using Cons.prems(2) [rule_format, of 0] by simp
  moreover have "\<forall>i<length cs. \<not> prefix close (drop i (cs @ close @ rest))"
  proof (intro allI impI)
    fix i assume "i < length cs"
    then show "\<not> prefix close (drop i (cs @ close @ rest))"
      using Cons.prems(2) [rule_format, of "Suc i"] by simp
  qed
  moreover have "line_terminator_at (c # cs @ close @ rest) = []" and "clean cs (close @ rest)"
    using Cons.prems(1) by (simp_all add: clean_Cons)
  ultimately show ?case using Cons.IH [of "acc @ [c]"] by simp
qed

lemma uid_close_no_overlap:
  assumes "\<not> sublist uid_close u" and "i < length u"
  shows "\<not> prefix uid_close (drop i (u @ uid_close @ rest))"
proof
  assume "prefix uid_close (drop i (u @ uid_close @ rest))"
  then have "prefix uid_close (drop i u @ uid_close @ rest)" using assms(2) by simp
  then consider "prefix uid_close (drop i u)"
    | us where "uid_close = drop i u @ us" "prefix us (uid_close @ rest)"
    by (auto simp: prefix_append)
  then show False
  proof cases
    case 1
    then have "sublist uid_close (drop i u)" by (rule prefix_imp_sublist)
    then have "sublist uid_close u" using sublist_drop sublist_order.order_trans by blast
    with assms(1) show False by simp
  next
    case 2
    have ne: "drop i u \<noteq> []" using assms(2) by simp
    show False
    proof (cases us)
      case Nil
      with 2 have "uid_close = drop i u" by simp
      then have "sublist uid_close u" by (metis sublist_drop)
      with assms(1) show False by simp
    next
      case (Cons a as)
      with 2(2) have "a = CHR '' ''" by (simp add: uid_close_def)
      with 2(1) Cons ne show False
        by (auto simp: uid_close_def append_eq_Cons_conv Cons_eq_append_conv)
    qed
  qed
qed

lemma extract_formatMessage:
  assumes "marker_safe U now m"
  shows "extractMessageUIDsFromNote (formatMessage U now m @ rest) =
         msg_id m # extractMessageUIDsFromNote rest"
proof -
  let ?b = "message_block U now m"
  let ?t = "message_trailer m"
  from assms have id: "msg_id m \<noteq> []" and nl: "\<not> has_line_terminator (msg_id m)"
    and nc: "\<not> sublist uid_close (msg_id m)" and no: "\<not> sublist uid_open ?b"
    by (auto simp: marker_safe_def js_includes_sublist)
  have nt: "clean (msg_id m) (uid_close @ ?t @ rest)"
    using nl by (rule clean_no_terminator) (simp add: uid_close_def)
  have fm: "formatMessage U now m @ rest =
      (?b @ [newline]) @ (uid_open @ msg_id m @ uid_close @ ?t @ rest)"
    using id by (simp add: formatMessage_def uid_marker_def)
  have "\<forall>i<length (?b @ [newline]).
          \<not> prefix uid_open (drop i ((?b @ [newline]) @ (uid_open @ msg_id m @ uid_close @ ?t @ rest)))"
  proof (intro allI impI)
    fix i assume "i < length (?b @ [newline])"
    then have "i \<le> length ?b" by simp
    then have "\<not> prefix uid_open (drop i (?b @ newline # (uid_open @ msg_id m @ uid_close @ ?t @ rest)))"
      by (intro no_occurrence_before [OF no]) (simp_all add: uid_open_def newline_def)
    then show "\<not> prefix uid_open (drop i ((?b @ [newline]) @ (uid_open @ msg_id m @ uid_close @ ?t @ rest)))"
      by simp
  qed
  then have s1: "extractMessageUIDsFromNote (formatMessage U now m @ rest) =
      extractMessageUIDsFromNote (uid_open @ msg_id m @ uid_close @ ?t @ rest)"
    unfolding fm by (rule extract_skip)
  have lu: "lazy_until uid_close [] (msg_id m @ uid_close @ ?t @ rest) = Some ([] @ msg_id m, ?t @ rest)"
    by (rule lazy_until_found [OF nt]) (use uid_close_no_overlap [OF nc] in blast)
  have s2: "extractMessageUIDsFromNote (uid_open @ msg_id m @ uid_close @ ?t @ rest) =
      msg_id m # extractMessageUIDsFromNote (?t @ rest)"
  proof -
    obtain c cs where cc: "uid_open @ msg_id m @ uid_close @ ?t @ rest = c # cs"
      by (cases "uid_open @ msg_id m @ uid_close @ ?t @ rest") (simp_all add: uid_open_def)
    have p: "prefix uid_open (c # cs)" using cc [symmetric] by simp
    have d: "drop (length uid_open) (c # cs) = msg_id m @ uid_close @ ?t @ rest"
      using cc [symmetric] by simp
    show ?thesis unfolding cc using p d lu by simp
  qed
  have s3: "extractMessageUIDsFromNote (?t @ rest) = extractMessageUIDsFromNote rest"
    by (rule extract_skip_plain) (simp add: message_trailer_def newline_def)
  show ?thesis using s1 s2 s3 by simp
qed

lemma extract_rendered_nodes:
  "list_all (\<lambda>m. isValidMessage U m \<and> marker_safe U now m)
     (concat (map (\<lambda>n. case message_sub n of None \<Rightarrow> [] | Some m \<Rightarrow> [m])
        (concat (map (\<lambda>(k, v). case v of None \<Rightarrow> [] | Some n \<Rightarrow> [n]) kvs)))) \<Longrightarrow>
   extractMessageUIDsFromNote
     (concat (map (\<lambda>(k, v). case rendered_message U v of
                              None \<Rightarrow> []
                            | Some m \<Rightarrow> formatMessage U now m) kvs)) =
   map msg_id
     (concat (map (\<lambda>n. case message_sub n of None \<Rightarrow> [] | Some m \<Rightarrow> [m])
        (concat (map (\<lambda>(k, v). case v of None \<Rightarrow> [] | Some n \<Rightarrow> [n]) kvs))))"
proof (induction kvs)
  case Nil
  then show ?case by simp
next
  case (Cons kv kvs)
  obtain k v where kv: "kv = (k, v)" by (cases kv)
  show ?case
  proof (cases "case v of None \<Rightarrow> None | Some n \<Rightarrow> message_sub n")
    case None
    then show ?thesis using Cons kv
      by (auto simp: rendered_message_def split: option.splits)
  next
    case (Some m)
    then obtain n where n: "v = Some n" "message_sub n = Some m"
      by (auto split: option.splits)
    with Cons.prems kv have ok: "isValidMessage U m" "marker_safe U now m" by auto
    show ?thesis
      using Cons.IH Cons.prems kv n ok
      by (simp add: rendered_message_def extract_formatMessage)
  qed
qed

text \<open>
  Claim C6, as amended. For every conversation whose messages are all valid and safe for
  their markers (no identifier is empty or holds a line terminator, which is LF, CR, U+2028
  or U+2029, or \<open>" -->"\<close>, and no message's heading and quoted text hold \<open>"<!-- UID: "\<close>): the
  markers read back from the rendered messages are exactly the identifiers of the
  conversation's messages, in the traversal order of the mapping.
\<close>

theorem render_then_extract_uids:
  assumes "list_all (\<lambda>m. isValidMessage U m \<and> marker_safe U now m) (chat_messages c)"
  shows "extractMessageUIDsFromNote (generateMessagesContent U now c) =
         map msg_id (chat_messages c)"
  using assms
  unfolding generateMessagesContent_def chat_messages_def mapping_values_def
  by (rule extract_rendered_nodes)

lemmas render_defs =
  generateMessagesContent_def chat_messages_def mapping_values_def example_chat_def
  user_message_def node_of_def rendered_message_def example_utils_def isValidMessage_spec_def
  string_parts_def formatMessage_def message_block_def authorName_def uid_marker_def
  message_trailer_def split_on_def newline_def uid_open_def uid_close_def
  line_terminator_at_def LS_def PS_def has_line_terminator_def marker_safe_def

text \<open>
  A conversation of two valid user messages satisfies the hypothesis of C6 as amended, and
  its two identifiers are read back in order.
\<close>

theorem render_then_extract_uids_witness:
  "list_all (\<lambda>m. isValidMessage example_utils m \<and> marker_safe example_utils 0 m)
     (chat_messages (example_chat ''c1'' ''T'' 5
        [user_message ''m1'' ''hello'', user_message ''m2'' ''world''])) \<and>
   extractMessageUIDsFromNote (generateMessagesContent example_utils 0
     (example_chat ''c1'' ''T'' 5 [user_message ''m1'' ''hello'', user_message ''m2'' ''world'']))
   = [''m1'', ''m2'']"
proof -
  have h: "list_all (\<lambda>m. isValidMessage example_utils m \<and> marker_safe example_utils 0 m)
     (chat_messages (example_chat ''c1'' ''T'' 5
        [user_message ''m1'' ''hello'', user_message ''m2'' ''world'']))"
    by (simp add: render_defs string_of_nat.simps digit_char_def)
  have "map msg_id (chat_messages (example_chat ''c1'' ''T'' 5
        [user_message ''m1'' ''hello'', user_message ''m2'' ''world''])) = [''m1'', ''m2'']"
    by (simp add: chat_messages_def mapping_values_def example_chat_def user_message_def
        node_of_def)
  with render_then_extract_uids [OF h] h show ?thesis by simp
qed

text \<open>
  Claim C6 as stated fails, in a way for each condition of the amended claim. A valid
  message whose text quotes a marker makes the extraction return an identifier no message
  has. The marker of a valid message whose identifier holds the line separator U+2028 is
  not read back. An identifier that holds \<open>" -->"\<close> is read back cut before it. And a
  valid message without an identifier is rendered with the marker \<open>unknown\<close>.
\<close>

theorem render_then_extract_uids_counterexample:
  "list_all (isValidMessage example_utils)
     (chat_messages (example_chat ''c1'' ''T'' 5 [user_message ''m1'' ''<!-- UID: x -->''])) \<and>
   map msg_id (chat_messages (example_chat ''c1'' ''T'' 5
     [user_message ''m1'' ''<!-- UID: x -->''])) = [''m1''] \<and>
   extractMessageUIDsFromNote (generateMessagesContent example_utils 0
     (example_chat ''c1'' ''T'' 5 [user_message ''m1'' ''<!-- UID: x -->''])) = [''x'', ''m1''] \<and>
   list_all (isValidMessage example_utils)
     (chat_messages (example_chat ''c1'' ''T'' 5
        [user_message (''a'' @ LS @ ''b'') ''hello'', user_message ''a --> b'' ''hello'',
         user_message [] ''hello''])) \<and>
   map msg_id (chat_messages (example_chat ''c1'' ''T'' 5
        [user_message (''a'' @ LS @ ''b'') ''hello'', user_message ''a --> b'' ''hello'',
         user_message [] ''hello''])) = [''a'' @ LS @ ''b'', ''a --> b'', []] \<and>
   extractMessageUIDsFromNote (generateMessagesContent example_utils 0
     (example_chat ''c1'' ''T'' 5 [user_message (''a'' @ LS @ ''b'') ''hello''])) = [] \<and>
   extractMessageUIDsFromNote (generateMessagesContent example_utils 0
     (example_chat ''c1'' ''T'' 5 [user_message ''a --> b'' ''hello''])) = [''a''] \<and>
   extractMessageUIDsFromNote (generateMessagesContent example_utils 0
     (example_chat ''c1'' ''T'' 5 [user_message [] ''hello''])) = [''unknown'']"
  by (simp add: render_defs string_of_nat.simps digit_char_def)

section \<open>The metadata rewrite\<close>

lemma expand_replacement_plain:
  "CHR ''$'' \<notin> set r \<Longrightarrow> expand_replacement pre m post r = r"
  by (induction pre m post r rule: expand_replacement.induct) auto

text \<open>find_line with an accumulator is find_line without, the accumulator put in front.\<close>

lemma find_line_pre:
  "find_line label bol pre s =
     map_option (\<lambda>(p, m, q). (pre @ p, m, q)) (find_line label bol [] s)"
proof (induction "length s" arbitrary: s bol pre rule: less_induct)
  case less
  show ?case
  proof (cases s)
    case Nil
    then show ?thesis by simp
  next
    case (Cons c cs)
    show ?thesis
    proof (cases "bol \<and> prefix label (c # cs)")
      case True
      then show ?thesis using Cons by simp
    next
      case False
      define t where "t = line_terminator_at (c # cs)"
      define b where "b = (t \<noteq> [])"
      define a where "a = (if b then t else [c])"
      define s' where "s' = (if b then drop (length t) (c # cs) else cs)"
      have len: "length s' < length s"
        unfolding s'_def b_def Cons by (cases t) auto
      have step: "find_line label bol p (c # cs) = find_line label b (p @ a) s'" for p
        using False unfolding a_def s'_def b_def t_def by auto
      have "find_line label bol pre (c # cs) = find_line label b (pre @ a) s'" by (rule step)
      also have "\<dots> = map_option (\<lambda>(p, m, q). ((pre @ a) @ p, m, q)) (find_line label b [] s')"
        by (rule less [OF len])
      also have "\<dots> = map_option (\<lambda>(p, m, q). (pre @ p, m, q))
                          (map_option (\<lambda>(p, m, q). (a @ p, m, q)) (find_line label b [] s'))"
        by (cases "find_line label b [] s'") auto
      also have "map_option (\<lambda>(p, m, q). (a @ p, m, q)) (find_line label b [] s')
                 = find_line label b ([] @ a) s'"
        using less [OF len, of b a] by simp
      also have "find_line label b ([] @ a) s' = find_line label bol [] (c # cs)"
        using step [of "[]"] by simp
      finally show ?thesis using Cons by simp
    qed
  qed
qed

lemma rl_Nil: "label \<noteq> [] \<Longrightarrow> rl label new bol [] = []"
  by (simp add: rl_def)

lemma rl_hit:
  "bol \<Longrightarrow> prefix label (c # cs) \<Longrightarrow> rl label new bol (c # cs) = new @ from_terminator (c # cs)"
  by (simp add: rl_def)

lemma rl_terminator:
  assumes "\<not> (bol \<and> prefix label (c # cs))" and "line_terminator_at (c # cs) \<noteq> []"
  shows "rl label new bol (c # cs) =
           line_terminator_at (c # cs)
           @ rl label new True (drop (length (line_terminator_at (c # cs))) (c # cs))"
proof -
  let ?t = "line_terminator_at (c # cs)"
  let ?s = "drop (length ?t) (c # cs)"
  have "find_line label bol [] (c # cs) = find_line label True ?t ?s"
    using assms by auto
  also have "\<dots> = map_option (\<lambda>(p, m, q). (?t @ p, m, q)) (find_line label True [] ?s)"
    by (rule find_line_pre)
  finally have f: "find_line label bol [] (c # cs) =
      map_option (\<lambda>(p, m, q). (?t @ p, m, q)) (find_line label True [] ?s)" .
  have s: "c # cs = ?t @ ?s" using lta_split [OF assms(2)] .
  show ?thesis
  proof (cases "find_line label True [] ?s")
    case None
    then show ?thesis using f s by (simp add: rl_def)
  next
    case (Some x)
    then show ?thesis using f by (cases x) (simp add: rl_def)
  qed
qed

lemma rl_char:
  assumes "\<not> (bol \<and> prefix label (c # cs))" and "line_terminator_at (c # cs) = []"
  shows "rl label new bol (c # cs) = c # rl label new False cs"
proof -
  have "find_line label bol [] (c # cs) = find_line label False [c] cs"
    using assms by auto
  also have "\<dots> = map_option (\<lambda>(p, m, q). ([c] @ p, m, q)) (find_line label False [] cs)"
    by (rule find_line_pre)
  finally show ?thesis
    by (cases "find_line label False [] cs") (auto simp: rl_def)
qed

lemma replace_line_rl:
  "CHR ''$'' \<notin> set new \<Longrightarrow> replace_line label new content = rl label new True content"
  by (auto simp: replace_line_def rl_def expand_replacement_plain split: option.splits)

text \<open>Off the start of a line the first two bytes of the text are kept.\<close>

lemma rl_False_hd:
  assumes "label \<noteq> []"
  shows "rl label new False s = [] \<longleftrightarrow> s = []"
    and "s \<noteq> [] \<Longrightarrow> hd (rl label new False s) = hd s"
proof -
  show "rl label new False s = [] \<longleftrightarrow> s = []"
  proof (cases s)
    case Nil
    then show ?thesis using assms by (simp add: rl_Nil)
  next
    case (Cons c cs)
    show ?thesis
    proof (cases "line_terminator_at (c # cs) = []")
      case True
      then show ?thesis using Cons by (simp add: rl_char)
    next
      case False
      then show ?thesis using Cons by (simp add: rl_terminator)
    qed
  qed
  show "s \<noteq> [] \<Longrightarrow> hd (rl label new False s) = hd s"
  proof (cases s)
    case Nil
    then show "s \<noteq> [] \<Longrightarrow> hd (rl label new False s) = hd s" by simp
  next
    case (Cons c cs)
    show ?thesis
    proof (cases "line_terminator_at (c # cs) = []")
      case True
      then show ?thesis using Cons by (simp add: rl_char)
    next
      case False
      have "hd (line_terminator_at (c # cs)) = c"
        using lta_split [OF False] False by (cases "line_terminator_at (c # cs)") auto
      then show ?thesis using Cons False by (simp add: rl_terminator)
    qed
  qed
qed

lemma lta_rl_False:
  assumes ne: "label \<noteq> []" and l: "line_terminator_at (c # cs) = []"
  shows "line_terminator_at (c # rl label new False cs) = []"
proof (cases "c = CHR 0xE2")
  case False
  then show ?thesis using l by (auto simp: line_terminator_at_def LS_def PS_def split: if_splits)
next
  case e: True
  show ?thesis
  proof (cases cs)
    case Nil
    then show ?thesis using e ne by (simp add: rl_Nil line_terminator_at_def LS_def PS_def)
  next
    case (Cons d ds)
    show ?thesis
    proof (cases "d = CHR 0x80")
      case False
      then have "hd (rl label new False cs) \<noteq> CHR 0x80" "rl label new False cs \<noteq> []"
        using rl_False_hd [OF ne, where s = cs and new = new] Cons by auto
      then show ?thesis using e
        by (cases "rl label new False cs") (auto simp: line_terminator_at_def LS_def PS_def)
    next
      case True
      have "line_terminator_at (d # ds) = []"
        using True by (auto simp: line_terminator_at_def LS_def PS_def)
      then have r: "rl label new False cs = d # rl label new False ds"
        using Cons by (simp add: rl_char)
      show ?thesis
      proof (cases ds)
        case Nil
        then show ?thesis using r e True ne
          by (simp add: rl_Nil line_terminator_at_def LS_def PS_def)
      next
        case (Cons x xs)
        have "hd (rl label new False ds) = x" "rl label new False ds \<noteq> []"
          using rl_False_hd [OF ne, where s = ds and new = new] Cons by auto
        moreover have "x \<noteq> CHR 0xA8 \<and> x \<noteq> CHR 0xA9"
          using l e True \<open>cs = d # ds\<close> Cons
          by (auto simp: line_terminator_at_def LS_def PS_def split: if_splits)
        ultimately show ?thesis using r e True
          by (cases "rl label new False ds") (auto simp: line_terminator_at_def LS_def PS_def)
      qed
    qed
  qed
qed

lemma split_lines_rl:
  assumes ne: "label \<noteq> []"
    and lab: "\<forall>x\<in>set label. x \<noteq> CHR 0x0A \<and> x \<noteq> CHR 0x0D \<and> x \<noteq> CHR 0xE2"
    and cl: "\<And>r. r = [] \<or> line_terminator_at r \<noteq> [] \<Longrightarrow> clean new r"
  shows "split_lines (rl label new bol s) =
     (if bol then map_first (\<lambda>(l, t). prefix label l) (\<lambda>(l, t). (new, t)) (split_lines s)
      else hd (split_lines s)
           # map_first (\<lambda>(l, t). prefix label l) (\<lambda>(l, t). (new, t)) (tl (split_lines s)))"
proof (induction s arbitrary: bol rule: split_lines.induct)
  case 1
  then show ?case using ne by (simp add: rl_Nil)
next
  case (2 c cs)
  let ?P = "\<lambda>(l, t). prefix label l"
  let ?f = "\<lambda>(l, t). (new, t)"
  let ?s = "c # cs"
  have pre: "prefix label (before_terminator ?s) \<longleftrightarrow> prefix label ?s"
  proof
    assume "prefix label (before_terminator ?s)"
    then show "prefix label ?s" using before_from [of ?s] by (metis prefix_prefix)
  next
    assume "prefix label ?s"
    then obtain x where x: "?s = label @ x" by (auto simp: prefix_def)
    have "before_terminator (label @ x) = label @ before_terminator x"
      using clean_plain [OF lab] by (rule before_clean)
    then show "prefix label (before_terminator ?s)" unfolding x by simp
  qed
  obtain t0 where sl: "split_lines ?s = (before_terminator ?s, t0) # tl (split_lines (from_terminator ?s))"
    and hd0: "hd (split_lines (from_terminator ?s)) = ([], t0)"
    using split_lines_from [of ?s] by (metis prod.collapse)
  show ?case
  proof (cases "bol \<and> prefix label ?s")
    case True
    have r: "rl label new bol ?s = new @ from_terminator ?s"
      using True by (intro rl_hit) simp_all
    have "clean new (from_terminator ?s)"
      using from_terminator_cases [of ?s] by (intro cl) 
    then have "split_lines (new @ from_terminator ?s) =
        (new @ fst (hd (split_lines (from_terminator ?s))), snd (hd (split_lines (from_terminator ?s))))
        # tl (split_lines (from_terminator ?s))"
      by (rule split_lines_clean)
    then have a: "split_lines (rl label new bol ?s) = (new, t0) # tl (split_lines (from_terminator ?s))"
      unfolding r hd0 by simp
    show ?thesis unfolding a sl using True pre by simp
  next
    case miss: False
    show ?thesis
    proof (cases "line_terminator_at ?s = []")
      case False
      define t where "t = line_terminator_at ?s"
      define s' where "s' = drop (length t) ?s"
      have tne: "t \<noteq> []" using False t_def by simp
      have r: "rl label new bol ?s = t @ rl label new True s'"
        unfolding t_def s'_def using miss False by (rule rl_terminator)
      have a: "split_lines (rl label new bol ?s) = ([], t) # split_lines (rl label new True s')"
        unfolding r t_def using False by (rule split_lines_terminator)
      have b: "split_lines ?s = ([], t) # split_lines s'"
        unfolding t_def s'_def using False by simp
      have ih: "split_lines (rl label new True s') = map_first ?P ?f (split_lines s')"
        using "2.IH"(1) [OF False, of True] unfolding s'_def t_def by simp
      show ?thesis unfolding a b ih using ne by simp
    next
      case True
      have r: "rl label new bol ?s = c # rl label new False cs"
        using miss True by (rule rl_char)
      have l: "line_terminator_at (c # rl label new False cs) = []"
        using ne True by (rule lta_rl_False)
      obtain x xs where x: "split_lines cs = x # xs"
        using split_lines_nonempty [of cs] by (cases "split_lines cs") auto
      have ih: "split_lines (rl label new False cs) = x # map_first ?P ?f xs"
        using "2.IH"(2) [of False] True x by simp
      have a: "split_lines (rl label new bol ?s) = (c # fst x, snd x) # map_first ?P ?f xs"
        unfolding r using split_lines_char [OF l] ih by simp
      have b: "split_lines ?s = (c # fst x, snd x) # xs"
        using split_lines_char [OF True] x by simp
      have "before_terminator ?s = c # fst x" using sl b by simp
      then have "\<not> (bol \<and> prefix label (c # fst x))" using miss pre by simp
      then show ?thesis unfolding a b by auto
    qed
  qed
qed

lemma map_fst_map_first:
  "map fst (map_first (\<lambda>(l, t). P l) (\<lambda>(l, t). (n, t)) ps) = map_first P (\<lambda>l. n) (map fst ps)"
  by (induction ps) auto

lemma map_snd_map_first:
  "map snd (map_first (\<lambda>(l, t). P l) (\<lambda>(l, t). (n, t)) ps) = map snd ps"
  by (induction ps) auto

text \<open>
  Claim C10. The lines of a text are the pieces between its line terminators (LF, CR,
  U+2028, U+2029). When the formatted update time holds no dollar sign and no line
  terminator, the lines of the rewritten document are those of the document, with the
  first line that begins with \<open>update_time: \<close> and the first line that begins with
  \<open>Last Updated: \<close> each set to the label followed by the formatted update time; every
  other line and every line terminator is as it was.
\<close>

theorem updateMetadata_lines:
  assumes "CHR ''$'' \<notin> set (updateTimeStr U t)"
    and "\<not> has_line_terminator (updateTimeStr U t)"
  shows "js_lines (updateMetadata U content t) =
           map_first (prefix ''Last Updated: '') (\<lambda>l. ''Last Updated: '' @ updateTimeStr U t)
             (map_first (prefix ''update_time: '') (\<lambda>l. ''update_time: '' @ updateTimeStr U t)
                (js_lines content))
         \<and> line_terminators (updateMetadata U content t) = line_terminators content"
proof -
  let ?ts = "updateTimeStr U t"
  let ?l1 = "''update_time: ''"
  let ?l2 = "''Last Updated: ''"
  let ?n1 = "?l1 @ ?ts"
  let ?n2 = "?l2 @ ?ts"
  have d1: "CHR ''$'' \<notin> set ?n1" and d2: "CHR ''$'' \<notin> set ?n2" using assms(1) by simp_all
  have p1: "\<forall>x\<in>set ?l1. x \<noteq> CHR 0x0A \<and> x \<noteq> CHR 0x0D \<and> x \<noteq> CHR 0xE2"
    and p2: "\<forall>x\<in>set ?l2. x \<noteq> CHR 0x0A \<and> x \<noteq> CHR 0x0D \<and> x \<noteq> CHR 0xE2"
    by simp_all
  have ts: "clean ?ts r" if "r = [] \<or> line_terminator_at r \<noteq> []" for r
  proof (rule clean_no_terminator [OF assms(2)])
    show "r = [] \<or> (hd r \<noteq> CHR 0x80 \<and> hd r \<noteq> CHR 0xA8 \<and> hd r \<noteq> CHR 0xA9)"
      using that lta_first [of "hd r" "tl r"] by (cases r) auto
  qed
  have c1: "clean ?n1 r" if "r = [] \<or> line_terminator_at r \<noteq> []" for r
    by (rule clean_append [OF clean_plain [OF p1] ts [OF that]])
  have c2: "clean ?n2 r" if "r = [] \<or> line_terminator_at r \<noteq> []" for r
    by (rule clean_append [OF clean_plain [OF p2] ts [OF that]])
  have um: "updateMetadata U content t = rl ?l2 ?n2 True (rl ?l1 ?n1 True content)"
    unfolding updateMetadata_def Let_def
    using replace_line_rl [OF d1] replace_line_rl [OF d2] by simp
  have a: "split_lines (rl ?l1 ?n1 True content) =
      map_first (\<lambda>(l, t). prefix ?l1 l) (\<lambda>(l, t). (?n1, t)) (split_lines content)"
    using split_lines_rl [OF _ p1 c1, of True content] by simp
  have b: "split_lines (rl ?l2 ?n2 True (rl ?l1 ?n1 True content)) =
      map_first (\<lambda>(l, t). prefix ?l2 l) (\<lambda>(l, t). (?n2, t))
        (split_lines (rl ?l1 ?n1 True content))"
    using split_lines_rl [OF _ p2 c2, of True] by simp
  show ?thesis
    unfolding um js_lines_def line_terminators_def b a
    by (simp only: map_fst_map_first map_snd_map_first)
qed

lemma example_updateTimeStr: "updateTimeStr example_utils 1704412860 = ''2024-01-05 at 60''"
  by (simp add: updateTimeStr_def example_utils_def string_of_nat.simps digit_char_def)

text \<open>
  The instance's time string has no dollar sign and no line terminator. A note whose first
  line ends at a line separator U+2028 and whose second line ends at LF gets its two
  timestamp lines rewritten, and keeps its third line and both terminators.
\<close>

theorem updateMetadata_lines_witness:
  "CHR ''$'' \<notin> set (updateTimeStr example_utils 1704412860) \<and>
   \<not> has_line_terminator (updateTimeStr example_utils 1704412860) \<and>
   js_lines (updateMetadata example_utils
     (''update_time: old'' @ LS @ ''Last Updated: old'' @ [newline] @ ''body'') 1704412860)
   = [''update_time: 2024-01-05 at 60'', ''Last Updated: 2024-01-05 at 60'', ''body''] \<and>
   line_terminators (updateMetadata example_utils
     (''update_time: old'' @ LS @ ''Last Updated: old'' @ [newline] @ ''body'') 1704412860)
   = [LS, [newline], []]"
proof -
  have h1: "CHR ''$'' \<notin> set (updateTimeStr example_utils 1704412860)"
    by (simp add: example_updateTimeStr)
  have h2: "\<not> has_line_terminator (updateTimeStr example_utils 1704412860)"
    by (simp add: example_updateTimeStr has_line_terminator_def LS_def PS_def)
  define d where "d = ''update_time: old'' @ LS @ ''Last Updated: old'' @ [newline] @ ''body''"
  have l: "split_lines d
      = [(''update_time: old'', LS), (''Last Updated: old'', [newline]), (''body'', [])]"
    unfolding d_def by (simp add: line_terminator_at_def LS_def PS_def newline_def)
  have "js_lines (updateMetadata example_utils d 1704412860)
        = [''update_time: 2024-01-05 at 60'', ''Last Updated: 2024-01-05 at 60'', ''body''] \<and>
        line_terminators (updateMetadata example_utils d 1704412860) = [LS, [newline], []]"
    using updateMetadata_lines [OF h1 h2, of d]
    by (simp add: js_lines_def line_terminators_def l example_updateTimeStr)
  then show ?thesis using h1 h2 unfolding d_def by simp
qed

section \<open>Runs: change detection and repeated imports\<close>

lemma quiet_refl: "quiet s s"
  by (simp add: quiet_def)

lemma quiet_trans: "quiet s s1 \<Longrightarrow> quiet s1 s2 \<Longrightarrow> quiet s s2"
  by (simp add: quiet_def)

lemma quiet_logError: "quiet s (logError msg details s)"
  by (simp add: quiet_def logError_def addError_def)

lemma quiet_createFolder:
  "createFolder p (vault s) = Inr v' \<Longrightarrow> quiet s (s\<lparr>vault := v'\<rparr>)"
  by (auto simp: quiet_def createFolder_def split: option.splits if_splits)

lemma ensure_loop_quiet: "ensure_loop fs cur s = (r, s') \<Longrightarrow> quiet s s'"
proof (induction fs cur s rule: ensure_loop.induct)
  case (1 currentPath s)
  then show ?case by (simp add: quiet_refl)
next
  case (2 folder rest currentPath s)
  let ?p = "currentPath @ folder @ ''/''"
  show ?case
  proof (cases "getAbstractFileByPath (vault s) ?p")
    case None
    show ?thesis
    proof (cases "createFolder ?p (vault s)")
      case (Inr v')
      have "ensure_loop rest ?p (s\<lparr>vault := v'\<rparr>) = (r, s')"
        using "2.prems" None Inr by simp
      then have "quiet (s\<lparr>vault := v'\<rparr>) s'"
        using "2.IH"(2) [OF refl None Inr] by simp
      with quiet_createFolder [OF Inr] show ?thesis by (rule quiet_trans)
    next
      case (Inl e)
      show ?thesis
      proof (cases "message_of e \<noteq> ''Folder already exists.''")
        case True
        then have "s' = logError (''Failed to create folder: '' @ ?p) (message_of e) s"
          using "2.prems" None Inl by simp
        then show ?thesis by (simp add: quiet_logError)
      next
        case False
        then have "ensure_loop rest ?p s = (r, s')"
          using "2.prems" None Inl by simp
        then show ?thesis using "2.IH"(1) [OF refl None Inl False] by simp
      qed
    qed
  next
    case (Some af)
    show ?thesis
    proof (cases af)
      case (TFile content)
      then show ?thesis using "2.prems" Some by (simp add: quiet_refl)
    next
      case TFolder
      then have "ensure_loop rest ?p s = (r, s')" using "2.prems" Some by simp
      then show ?thesis using "2.IH"(3) [OF refl Some TFolder] by simp
    qed
  qed
qed

lemma createFolderForChat_quiet: "createFolderForChat U c s = (r, s1) \<Longrightarrow> quiet s s1"
proof -
  assume a: "createFolderForChat U c s = (r, s1)"
  obtain e s' where e: "ensureFolderExists
      (archiveFolder (settings s) @ ''/'' @ getYearMonthFolder U (chat_create_time c)) s = (e, s')"
    by (cases "ensureFolderExists
      (archiveFolder (settings s) @ ''/'' @ getYearMonthFolder U (chat_create_time c)) s")
  then have "quiet s s'" unfolding ensureFolderExists_def by (rule ensure_loop_quiet)
  moreover have "s1 = s'" using a e by (auto simp: createFolderForChat_def Let_def split: option.splits)
  ultimately show ?thesis by simp
qed


lemma untouched_refl: "untouched s s"
  by (simp add: untouched_def)

lemma untouched_trans: "untouched s s1 \<Longrightarrow> untouched s1 s2 \<Longrightarrow> untouched s s2"
  by (simp add: untouched_def)

lemma quiet_untouched: "quiet s s' \<Longrightarrow> untouched s s'"
  by (simp add: quiet_def untouched_def)

text \<open>What the operations on notes leave of the conversation records.\<close>

lemma writeToFile_records:
  "writeToFile p content s = (r, s') \<Longrightarrow> conversationRecords s' = conversationRecords s"
  by (auto simp: writeToFile_def logError_def split: sum.splits option.splits abstract_file.splits)

lemma createNewNote_records:
  "createNewNote U now c folderPath ex s = (r, s') \<Longrightarrow>
   conversationRecords s' = conversationRecords s"
proof -
  assume a: "createNewNote U now c folderPath ex s = (r, s')"
  let ?p = "folderPath @ ''/'' @ getUniqueFileName U (settings s) c folderPath ex"
  obtain w s1 where w: "writeToFile ?p (generateMarkdownContent U now c) s = (w, s1)"
    by (cases "writeToFile ?p (generateMarkdownContent U now c) s")
  then have "conversationRecords s1 = conversationRecords s" by (rule writeToFile_records)
  then show ?thesis using a w
    by (cases w) (auto simp: createNewNote_def Let_def logError_def)
qed

lemma updateExistingNote_records:
  "conversationRecords (updateExistingNote U now c p s) = conversationRecords s"
  by (auto simp: updateExistingNote_def Let_def logError_def
      split: option.splits abstract_file.splits prod.splits)

lemma handleExistingChat_records:
  "conversationRecords (handleExistingChat U now c r folderPath s) = conversationRecords s"
  by (simp add: handleExistingChat_def updateExistingNote_records)

lemma processSingleChat_try_records:
  assumes "processSingleChat_try U now c ex s = (r, s')"
  shows "(case r of
            Inl e \<Rightarrow> conversationRecords s' = conversationRecords s
          | Inr u \<Rightarrow> \<exists>p. conversationRecords s' =
                       (conversationRecords s)(chat_id c \<mapsto> \<lparr>path = p, updateTime = chat_update_time c\<rparr>))"
proof -
  obtain f s1 where f: "createFolderForChat U c s = (f, s1)"
    by (cases "createFolderForChat U c s")
  then have q: "conversationRecords s1 = conversationRecords s"
    using createFolderForChat_quiet [OF f] by (simp add: quiet_def)
  show ?thesis
  proof (cases f)
    case (Inl e)
    then show ?thesis using assms f q by (auto simp: processSingleChat_try_def)
  next
    case (Inr folderPath)
    show ?thesis
    proof (cases "read_record (conversationRecords s1) (chat_id c)")
      case (Some existingRecord)
      then have "r = Inr ()" "s' = updateConversationRecord U c folderPath
          (handleExistingChat U now c existingRecord folderPath s1)"
        using assms f Inr by (simp_all add: processSingleChat_try_def)
      then show ?thesis using q
        by (auto simp: updateConversationRecord_def handleExistingChat_records)
    next
      case None
      obtain n s2 where n: "handleNewChat U now c folderPath ex s1 = (n, s2)"
        by (cases "handleNewChat U now c folderPath ex s1")
      then have q2: "conversationRecords s2 = conversationRecords s1"
        unfolding handleNewChat_def using createNewNote_records by fastforce
      show ?thesis
      proof (cases n)
        case (Inl e)
        then show ?thesis using assms f \<open>f = Inr folderPath\<close> None n q q2
          by (auto simp: processSingleChat_try_def)
      next
        case (Inr u)
        then show ?thesis using assms f \<open>f = Inr folderPath\<close> None n q q2
          by (auto simp: processSingleChat_try_def updateConversationRecord_def)
      qed
    qed
  qed
qed

lemma processSingleChat_records_other:
  "k \<noteq> chat_id c \<Longrightarrow>
   conversationRecords (processSingleChat U now c ex s) k = conversationRecords s k"
proof -
  assume k: "k \<noteq> chat_id c"
  obtain r s' where t: "processSingleChat_try U now c ex s = (r, s')"
    by (cases "processSingleChat_try U now c ex s")
  from processSingleChat_try_records [OF t] k show ?thesis
    using t by (cases r) (auto simp: processSingleChat_def logError_def)
qed

lemma processSingleChat_records_ok:
  assumes "fst (processSingleChat_try U now c ex s) = Inr u"
  shows "\<exists>r. conversationRecords (processSingleChat U now c ex s) (chat_id c) = Some r \<and>
             updateTime r = chat_update_time c"
proof -
  obtain s' where t: "processSingleChat_try U now c ex s = (Inr u, s')"
    using assms by (cases "processSingleChat_try U now c ex s") auto
  from processSingleChat_try_records [OF t] show ?thesis
    using t by (auto simp: processSingleChat_def)
qed

lemma processChats_records_other:
  "k \<notin> set (map chat_id cs) \<Longrightarrow>
   conversationRecords (processChats U now cs ex s) k = conversationRecords s k"
  by (induction cs arbitrary: s) (simp_all add: processSingleChat_records_other)

lemma first_run_records:
  "distinct (map chat_id cs) \<Longrightarrow> run_ok U now cs ex s \<Longrightarrow> c \<in> set cs \<Longrightarrow>
   \<exists>r. conversationRecords (processChats U now cs ex s) (chat_id c) = Some r \<and>
       updateTime r = chat_update_time c"
proof (induction cs arbitrary: s)
  case Nil
  then show ?case by simp
next
  case (Cons a cs)
  let ?s1 = "processSingleChat U now a ex s"
  show ?case
  proof (cases "c = a")
    case True
    from Cons.prems(2) obtain u where "fst (processSingleChat_try U now a ex s) = Inr u"
      by (auto split: sum.splits)
    then obtain r where "conversationRecords ?s1 (chat_id a) = Some r"
      "updateTime r = chat_update_time a"
      using processSingleChat_records_ok by blast
    moreover have "chat_id a \<notin> set (map chat_id cs)" using Cons.prems(1) by simp
    ultimately show ?thesis using True processChats_records_other [of "chat_id a" cs U now ex ?s1]
      by simp
  next
    case False
    with Cons.prems have "c \<in> set cs" "distinct (map chat_id cs)" "run_ok U now cs ex ?s1"
      by auto
    then show ?thesis using Cons.IH by simp
  qed
qed

text \<open>A conversation whose record is not older than the conversation is only skipped.\<close>

lemma unchanged_step:
  assumes "conversationRecords s (chat_id c) = Some r" and "chat_update_time c \<le> updateTime r"
  shows "untouched s (processSingleChat U now c ex s)"
    and "\<exists>r'. conversationRecords (processSingleChat U now c ex s) (chat_id c) = Some r' \<and>
              chat_update_time c \<le> updateTime r'"
proof -
  obtain f s1 where f: "createFolderForChat U c s = (f, s1)"
    by (cases "createFolderForChat U c s")
  have q: "quiet s s1" using f by (rule createFolderForChat_quiet)
  then have r1: "read_record (conversationRecords s1) (chat_id c) = Some (Record r)"
    using assms(1) by (simp add: quiet_def read_record_def)
  have "untouched s (processSingleChat U now c ex s) \<and>
        (\<exists>r'. conversationRecords (processSingleChat U now c ex s) (chat_id c) = Some r' \<and>
              chat_update_time c \<le> updateTime r')"
  proof (cases f)
    case (Inl e)
    then have "processSingleChat U now c ex s =
        logError (''Error processing chat: '' @ title_or_untitled c) (message_of e) s1"
      using f by (simp add: processSingleChat_def processSingleChat_try_def)
    then show ?thesis
      using q assms quiet_logError [of s1]
      by (auto simp: quiet_def untouched_def logError_def)
  next
    case (Inr folderPath)
    then have "processSingleChat U now c ex s =
        updateConversationRecord U c folderPath
          (handleExistingChat U now c (Record r) folderPath s1)"
      using f r1 by (simp add: processSingleChat_def processSingleChat_try_def)
    then show ?thesis
      using q assms(2)
      by (simp add: quiet_def untouched_def updateConversationRecord_def handleExistingChat_def
          addSkipped_def)
  qed
  then show "untouched s (processSingleChat U now c ex s)"
    and "\<exists>r'. conversationRecords (processSingleChat U now c ex s) (chat_id c) = Some r' \<and>
              chat_update_time c \<le> updateTime r'"
    by simp_all
qed

lemma second_run_untouched:
  "distinct (map chat_id cs) \<Longrightarrow>
   (\<forall>c\<in>set cs. \<exists>r. conversationRecords s (chat_id c) = Some r \<and>
                     chat_update_time c \<le> updateTime r) \<Longrightarrow>
   untouched s (processChats U now cs ex s)"
proof (induction cs arbitrary: s)
  case Nil
  then show ?case by (simp add: untouched_refl)
next
  case (Cons a cs)
  let ?s1 = "processSingleChat U now a ex s"
  from Cons.prems(2) obtain r where r: "conversationRecords s (chat_id a) = Some r"
    "chat_update_time a \<le> updateTime r" by auto
  have u: "untouched s ?s1" using r by (rule unchanged_step(1))
  have "\<forall>c\<in>set cs. \<exists>r. conversationRecords ?s1 (chat_id c) = Some r \<and>
                     chat_update_time c \<le> updateTime r"
  proof
    fix c assume c: "c \<in> set cs"
    then have "chat_id c \<in> set (map chat_id cs)" by simp
    moreover have "chat_id a \<notin> set (map chat_id cs)" using Cons.prems(1) by simp
    ultimately have "chat_id c \<noteq> chat_id a" by metis
    then have "conversationRecords ?s1 (chat_id c) = conversationRecords s (chat_id c)"
      by (rule processSingleChat_records_other)
    with Cons.prems(2) c show "\<exists>r. conversationRecords ?s1 (chat_id c) = Some r \<and>
                     chat_update_time c \<le> updateTime r" by simp
  qed
  moreover have "distinct (map chat_id cs)" using Cons.prems(1) by simp
  ultimately have "untouched ?s1 (processChats U now cs ex ?s1)" using Cons.IH by blast
  with u show ?case by (simp add: untouched_trans)
qed


lemma processConversations_chats:
  "conversations_json env = Inr chats \<Longrightarrow>
   processConversations U env s =
     updateImportLog (processChats U (clock env) chats (existing_conversations env)
       (initializeCounters (existing_conversations env) s))"
  by (simp add: processConversations_def)

text \<open>
  Claim C1, as amended. For every archive whose conversations have pairwise distinct
  identifiers: after a run over it in which no conversation failed, a second run over the
  same archive, started from the conversation records the first run left (whatever the
  vault, the clock and the existing notes then are), writes no note, logs nothing as
  created or updated, and counts no new conversation, no conversation to update, no
  import, no update and no added message: every conversation it reaches is skipped.
\<close>

theorem second_run_idle:
  assumes "conversations_json env1 = Inr chats" and "conversations_json env2 = Inr chats"
    and "distinct (map chat_id chats)"
    and "run_without_failure U env1 s"
    and "conversationRecords s2 = conversationRecords (processConversations U env1 s)"
  shows "files (vault (processConversations U env2 s2)) = files (vault s2) \<and>
         created (importLog (processConversations U env2 s2)) = created (importLog s2) \<and>
         updated (importLog (processConversations U env2 s2)) = updated (importLog s2) \<and>
         totalNewConversationsToImport (processConversations U env2 s2) = 0 \<and>
         totalNewConversationsSuccessfullyImported (processConversations U env2 s2) = 0 \<and>
         totalExistingConversationsToUpdate (processConversations U env2 s2) = 0 \<and>
         totalConversationsActuallyUpdated (processConversations U env2 s2) = 0 \<and>
         totalNonEmptyMessagesAdded (processConversations U env2 s2) = 0"
proof -
  let ?i1 = "initializeCounters (existing_conversations env1) s"
  let ?i2 = "initializeCounters (existing_conversations env2) s2"
  let ?r1 = "processChats U (clock env1) chats (existing_conversations env1) ?i1"
  let ?r2 = "processChats U (clock env2) chats (existing_conversations env2) ?i2"
  have ok: "run_ok U (clock env1) chats (existing_conversations env1) ?i1"
    using assms(1,4) by (simp add: run_without_failure_def)
  have "conversationRecords ?i2 = conversationRecords ?r1"
    using assms(5) processConversations_chats [OF assms(1), of U s]
    by (simp add: initializeCounters_def updateImportLog_def)
  then have "\<forall>c\<in>set chats. \<exists>r. conversationRecords ?i2 (chat_id c) = Some r \<and>
                     chat_update_time c \<le> updateTime r"
    using first_run_records [OF assms(3) ok] by fastforce
  then have "untouched ?i2 ?r2" using assms(3) by (intro second_run_untouched) simp_all
  moreover have "processConversations U env2 s2 = updateImportLog ?r2"
    using assms(2) by (rule processConversations_chats)
  ultimately show ?thesis
    by (simp add: untouched_def updateImportLog_def addSummary_def initializeCounters_def)
qed





section \<open>The runs of the examples\<close>

lemma example_utils_simps:
  "formatTimestamp example_utils t DateFmt = ''2024-01-05''"
  "formatTimestamp example_utils t PrefixFmt = ''2024-01-05''"
  "formatTimestamp example_utils t TimeFmt = string_of_nat (nat \<lfloor>t\<rfloor> mod 86400)"
  "getYearMonthFolder example_utils t = ''2024/01''"
  "formatTitle example_utils (Some ''T'') = ''T''"
  "formatTitle example_utils (Some ''Hello'') = ''Hello''"
  "isValidMessage example_utils = isValidMessage_spec"
  by (simp_all add: example_utils_def)

lemma example_chat_simps:
  "chat_id (example_chat i ttl u ms) = i"
  "chat_title (example_chat i ttl u ms) = Some ttl"
  "chat_create_time (example_chat i ttl u ms) = 1704412800"
  "chat_update_time (example_chat i ttl u ms) = u"
  by (simp_all add: example_chat_def)

lemmas state_defs =
  processSingleChat_def processSingleChat_try_def createFolderForChat_def ensureFolderExists_def
  split_on_def getAbstractFileByPath_def createFolder_def exists_path_def
  handleNewChat_def createNewNote_def writeToFile_def vault_create_def vault_modify_def put_file_def
  handleExistingChat_def updateExistingNote_def updateConversationRecord_def
  read_record_def record_path_def Object_prototype_names_def
  logError_def addError_def addCreated_def addUpdated_def addSkipped_def addFailed_def
  title_or_untitled_def date_time_def
  fresh_plugin_def empty_vault_def DEFAULT_SETTINGS_def new_ImportLog_def
  getUniqueFileName_def getFileName_def name_taken_def endsWith_def numbered_name_def
  unique_loop.simps Let_def example_utils_simps example_chat_simps
  string_of_nat.simps digit_char_def

lemmas example_defs =
  chat_v1_def chat_v2_def note_path_def archive_folders_def synced_vault_def synced_plugin_def
  archive_env_def process_fault_def create_fault_def folder_fault_def recovered_def
  invalid_env_def chat_hello_def hello_vault_def chat_hello_again_def chat_constructor_def
  chat_v0_def

lemmas run_level_defs =
  processConversations_def initializeCounters_def updateImportLog_def addSummary_def
  run_without_failure_def

lemmas zip_defs =
  handleZipFile_def handleZipFile_try_def validateZipFile_def writeImportLog_def
  log_path_loop.simps numbered_log_path_def Notice_def hasErrors_def



text \<open>
  An archive of one conversation imported into an empty vault without failure, then
  imported again from the state the first run left: the second run touches nothing.
\<close>

theorem second_run_idle_witness:
  "distinct (map chat_id [chat_v1]) \<and>
   run_without_failure example_utils (archive_env [chat_v1]) (fresh_plugin empty_vault) \<and>
   files (vault (processConversations example_utils (archive_env [chat_v1])
            (processConversations example_utils (archive_env [chat_v1]) (fresh_plugin empty_vault))))
     = files (vault (processConversations example_utils (archive_env [chat_v1])
                       (fresh_plugin empty_vault))) \<and>
   totalNewConversationsToImport (processConversations example_utils (archive_env [chat_v1])
      (processConversations example_utils (archive_env [chat_v1]) (fresh_plugin empty_vault))) = 0 \<and>
   totalExistingConversationsToUpdate (processConversations example_utils (archive_env [chat_v1])
      (processConversations example_utils (archive_env [chat_v1]) (fresh_plugin empty_vault))) = 0"
proof -
  have j: "conversations_json (archive_env [chat_v1]) = Inr [chat_v1]"
    by (simp add: archive_env_def)
  have d: "distinct (map chat_id [chat_v1])" by simp
  have ok: "run_without_failure example_utils (archive_env [chat_v1]) (fresh_plugin empty_vault)"
    by (simp add: state_defs example_defs run_level_defs)
  from second_run_idle [OF j j d ok refl] d ok show ?thesis by blast
qed

text \<open>
  Claim C1 as stated fails in two ways. When the note cannot be created in the first run,
  the conversation gets no record, and a second run over the same archive, the vault
  having recovered, creates the note. When the archive lists one conversation twice, the
  later state first, the first run leaves the older update time in the record, and the
  second run merges.
\<close>

theorem second_run_idle_counterexample:
  "totalNewConversationsSuccessfullyImported
     (processConversations example_utils (archive_env [chat_v1])
        (recovered (processConversations example_utils (archive_env [chat_v1])
                      (fresh_plugin create_fault)))) = 1 \<and>
   totalConversationsActuallyUpdated
     (processConversations example_utils (archive_env [chat_v2, chat_v1])
        (processConversations example_utils (archive_env [chat_v2, chat_v1])
           (fresh_plugin empty_vault))) = 1"
proof -
  have a: "totalNewConversationsSuccessfullyImported
     (processConversations example_utils (archive_env [chat_v1])
        (recovered (processConversations example_utils (archive_env [chat_v1])
                      (fresh_plugin create_fault)))) = 1"
    by (simp add: state_defs example_defs run_level_defs)
  have b: "totalConversationsActuallyUpdated
     (processConversations example_utils (archive_env [chat_v2, chat_v1])
        (processConversations example_utils (archive_env [chat_v2, chat_v1])
           (fresh_plugin empty_vault))) = 1"
    by (simp add: state_defs example_defs run_level_defs case_prod_unfold)
  from a b show ?thesis by simp
qed

section \<open>Where the code departs from the claims\<close>

lemmas render_eval =
  generateMarkdownContent_def generateHeader_def generateMessagesContent_def rendered_message_def
  formatMessage_def message_block_def authorName_def uid_marker_def message_trailer_def
  string_parts_def split_on_def newline_def uid_open_def uid_close_def line_terminator_at_def LS_def PS_def
  isValidMessage_spec_def example_chat_def user_message_def node_of_def example_utils_simps
  updateTimeStr_def string_of_nat.simps digit_char_def

text \<open>
  getNewMessages never looks at the message sub-objects: whatever isValidMessage is, the
  candidates are the same when every node's message is taken away.
\<close>

lemma getNewMessages_ignores_messages:
  "getNewMessages U
     (c\<lparr>chat_mapping := map (\<lambda>(k, v). (k, map_option (\<lambda>n. n\<lparr>message_sub := None\<rparr>) v))
                            (chat_mapping c)\<rparr>) ids
   = getNewMessages U c ids"
proof -
  have "map message.truncate
          (filter (\<lambda>n. msg_id n \<noteq> [] \<and> msg_id n \<notin> set ids \<and> isValidMessage U (message.truncate n))
             (concat (map (\<lambda>(k, v). case v of None \<Rightarrow> [] | Some n \<Rightarrow> [n])
                (map (\<lambda>(k, v). (k, map_option (\<lambda>n. n\<lparr>message_sub := None\<rparr>) v)) kvs))))
        = map message.truncate
          (filter (\<lambda>n. msg_id n \<noteq> [] \<and> msg_id n \<notin> set ids \<and> isValidMessage U (message.truncate n))
             (concat (map (\<lambda>(k, v). case v of None \<Rightarrow> [] | Some n \<Rightarrow> [n]) kvs)))"
    for kvs :: "(string \<times> node option) list"
    by (induction kvs) (auto simp: message.defs split: option.splits)
  then show ?thesis by (simp add: getNewMessages_def mapping_values_def)
qed

text \<open>
  Claim C2 at a failing input. The note holds the conversation as first imported (marker
  \<open>m1\<close>); the conversation now has a second valid message \<open>m2\<close>. The markers are read from
  the note and the valid messages not yet in the note are \<open>m2\<close> alone, but getNewMessages
  tests the nodes, which carry no author and no content, so the candidate list is empty
  and the count of added messages is 0.
\<close>

theorem merge_misses_valid_new_message:
  "extractMessageUIDsFromNote (generateMarkdownContent example_utils 0 chat_v1) = [''m1''] \<and>
   filter (\<lambda>m. isValidMessage example_utils m \<and> msg_id m \<notin> set [''m1'']) (chat_messages chat_v2)
     = [user_message ''m2'' ''more''] \<and>
   getNewMessages example_utils chat_v2 [''m1''] = [] \<and>
   snd (merge_content example_utils 0 chat_v2 (generateMarkdownContent example_utils 0 chat_v1)) = 0"
proof -
  have a: "extractMessageUIDsFromNote (generateMarkdownContent example_utils 0 chat_v1) = [''m1'']"
    by (simp add: render_eval chat_v1_def)
  have b: "filter (\<lambda>m. isValidMessage example_utils m \<and> msg_id m \<notin> set [''m1''])
             (chat_messages chat_v2) = [user_message ''m2'' ''more'']"
    by (simp add: chat_messages_def mapping_values_def chat_v2_def example_chat_def node_of_def
        user_message_def example_utils_simps isValidMessage_spec_def string_parts_def)
  have c: "getNewMessages example_utils chat_v2 [''m1''] = []"
    by (simp add: getNewMessages_def mapping_values_def chat_v2_def example_chat_def node_of_def
        user_message_def example_utils_simps isValidMessage_spec_def message.defs)
  have d: "snd (merge_content example_utils 0 chat_v2
                  (generateMarkdownContent example_utils 0 chat_v1)) = 0"
    by (simp add: merge_content_def Let_def a c)
  from a b c d show ?thesis by simp
qed

text \<open>
  Claim C4 at a failing input. The conversation has a record from an earlier import and a
  later update time, and \<open>vault.process\<close> throws. The failure is logged and the note is as
  it was, but the record's update time is advanced to the conversation's; met again after
  the vault has recovered, the conversation is skipped with \<open>No Updates\<close>.
\<close>

theorem merge_failure_advances_record:
  "conversationRecords (synced_plugin process_fault) ''c1''
     = Some \<lparr>path = note_path, updateTime = 1704412805\<rparr> \<and>
   failed (importLog (processSingleChat example_utils 0 chat_v2 [] (synced_plugin process_fault)))
     = [\<lparr>title = ''T'', filePath = note_path, createDate = ''2024-01-05 0'',
         updateDate = ''2024-01-05 100'', reason = None, errorMessage = Some ''disk full''\<rparr>] \<and>
   files (vault (processSingleChat example_utils 0 chat_v2 [] (synced_plugin process_fault)))
     = files (vault (synced_plugin process_fault)) \<and>
   conversationRecords (processSingleChat example_utils 0 chat_v2 [] (synced_plugin process_fault)) ''c1''
     = Some \<lparr>path = note_path, updateTime = 1704412900\<rparr> \<and>
   skipped (importLog (processSingleChat example_utils 0 chat_v2 []
              (recovered (processSingleChat example_utils 0 chat_v2 [] (synced_plugin process_fault)))))
     = [\<lparr>title = ''T'', filePath = note_path, createDate = ''2024-01-05'',
         updateDate = ''2024-01-05'', reason = Some ''No Updates'', errorMessage = None\<rparr>]"
proof -
  let ?s' = "processSingleChat example_utils 0 chat_v2 [] (synced_plugin process_fault)"
  have a: "conversationRecords (synced_plugin process_fault) ''c1''
     = Some \<lparr>path = note_path, updateTime = 1704412805\<rparr>"
    by (simp add: synced_plugin_def)
  have b: "failed (importLog ?s')
     = [\<lparr>title = ''T'', filePath = note_path, createDate = ''2024-01-05 0'',
         updateDate = ''2024-01-05 100'', reason = None, errorMessage = Some ''disk full''\<rparr>]"
    by (simp add: state_defs example_defs)
  have c: "files (vault ?s') = files (vault (synced_plugin process_fault))"
    by (simp add: state_defs example_defs)
  have d: "conversationRecords ?s' ''c1'' = Some \<lparr>path = note_path, updateTime = 1704412900\<rparr>"
    by (simp add: state_defs example_defs)
  have e: "skipped (importLog (processSingleChat example_utils 0 chat_v2 [] (recovered ?s')))
     = [\<lparr>title = ''T'', filePath = note_path, createDate = ''2024-01-05'',
         updateDate = ''2024-01-05'', reason = Some ''No Updates'', errorMessage = None\<rparr>]"
    by (simp add: state_defs example_defs)
  from a b c d e show ?thesis by simp
qed

lemma unique_loop_free:
  "\<not> name_taken ex folderPath p \<Longrightarrow> unique_loop ex folderPath fileName p counter = p"
  by (subst unique_loop.simps) simp

lemma unique_loop_step:
  "name_taken ex folderPath p \<Longrightarrow>
   unique_loop ex folderPath fileName p counter =
   unique_loop ex folderPath fileName (numbered_name fileName counter) (counter + 1)"
  by (subst unique_loop.simps) simp

lemmas name_defs =
  name_taken_def endsWith_def numbered_name_def string_of_nat.simps digit_char_def

lemma example_getFileName:
  "getFileName example_utils DEFAULT_SETTINGS (example_chat i ''Chat'' u ms) = ''Chat.md''"
  "getFileName example_utils DEFAULT_SETTINGS (example_chat i ''Hello'' u ms) = ''Hello.md''"
  by (simp_all add: getFileName_def example_utils_def example_chat_def DEFAULT_SETTINGS_def)

text \<open>
  Claim C5 at two failing inputs. First, the folder holds \<open>Chat.md\<close> and \<open>My Chat (1).md\<close>:
  \<open>Chat (1).md\<close> is absent from it, yet the name chosen for a new conversation titled
  \<open>Chat\<close> is \<open>Chat (2).md\<close>, because a name counts as taken as soon as some existing path
  ends with it. Second, two new conversations titled \<open>Hello\<close> come in one archive into an
  empty vault: the existing paths were collected before the first was written, so the
  second is given \<open>Hello.md\<close> too, a name the folder holds by then, and its text replaces
  the first conversation's.
\<close>

theorem unique_name_misjudges_folder:
  "''ChatGPT Archives/2024/01/Chat.md'' \<in> set (map snd chat_paths) \<and>
   ''ChatGPT Archives/2024/01/Chat (1).md'' \<notin> set (map snd chat_paths) \<and>
   getUniqueFileName example_utils DEFAULT_SETTINGS (example_chat ''c2'' ''Chat'' 5 [])
     ''ChatGPT Archives/2024/01'' chat_paths = ''Chat (2).md'' \<and>
   files (vault (processChats example_utils 0 [chat_hello] [] (fresh_plugin empty_vault)))
     = [(''ChatGPT Archives/2024/01/Hello.md'', generateMarkdownContent example_utils 0 chat_hello)] \<and>
   files (vault (processChats example_utils 0 [chat_hello, chat_hello_again] []
                   (fresh_plugin empty_vault)))
     = [(''ChatGPT Archives/2024/01/Hello.md'',
         generateMarkdownContent example_utils 0 chat_hello_again)] \<and>
   map filePath (created (importLog
     (processChats example_utils 0 [chat_hello, chat_hello_again] [] (fresh_plugin empty_vault))))
     = [''ChatGPT Archives/2024/01/Hello.md'', ''ChatGPT Archives/2024/01/Hello.md'']"
proof -
  let ?loop = "unique_loop chat_paths ''ChatGPT Archives/2024/01'' ''Chat.md''"
  have e1: "name_taken chat_paths ''ChatGPT Archives/2024/01'' ''Chat.md''"
    by (simp add: name_defs chat_paths_def)
  have e2: "name_taken chat_paths ''ChatGPT Archives/2024/01'' (numbered_name ''Chat.md'' 1)"
    by (simp add: name_defs chat_paths_def)
  have e3: "\<not> name_taken chat_paths ''ChatGPT Archives/2024/01'' (numbered_name ''Chat.md'' 2)"
    by (simp add: name_defs chat_paths_def)
  have e4: "numbered_name ''Chat.md'' 2 = ''Chat (2).md''"
    by (simp add: name_defs)
  have s1: "?loop ''Chat.md'' 1 = ?loop (numbered_name ''Chat.md'' 1) 2"
    using unique_loop_step [OF e1, of "''Chat.md''" 1] by (simp only: one_add_one)
  have s2: "?loop (numbered_name ''Chat.md'' 1) 2 = ?loop (numbered_name ''Chat.md'' 2) 3"
    using unique_loop_step [OF e2, of "''Chat.md''" 2] by simp
  have s3: "?loop (numbered_name ''Chat.md'' 2) 3 = numbered_name ''Chat.md'' 2"
    by (rule unique_loop_free [OF e3])
  have a: "getUniqueFileName example_utils DEFAULT_SETTINGS (example_chat ''c2'' ''Chat'' 5 [])
     ''ChatGPT Archives/2024/01'' chat_paths = ''Chat (2).md''"
    unfolding getUniqueFileName_def Let_def example_getFileName s1 s2 s3 by (rule e4)
  have b: "files (vault (processChats example_utils 0 [chat_hello] [] (fresh_plugin empty_vault)))
     = [(''ChatGPT Archives/2024/01/Hello.md'', generateMarkdownContent example_utils 0 chat_hello)]"
    by (simp add: state_defs example_defs)
  have c: "files (vault (processChats example_utils 0 [chat_hello, chat_hello_again] []
                   (fresh_plugin empty_vault)))
     = [(''ChatGPT Archives/2024/01/Hello.md'',
         generateMarkdownContent example_utils 0 chat_hello_again)]"
    by (simp add: state_defs example_defs)
  have d: "map filePath (created (importLog
     (processChats example_utils 0 [chat_hello, chat_hello_again] [] (fresh_plugin empty_vault))))
     = [''ChatGPT Archives/2024/01/Hello.md'', ''ChatGPT Archives/2024/01/Hello.md'']"
    by (simp add: state_defs example_defs)
  from a b c d show ?thesis by (simp add: chat_paths_def)
qed

text \<open>
  Claim C9 at a failing input. The folder already holds \<open>Hello.md\<close> of another
  conversation, so the new conversation titled \<open>Hello\<close> is written to \<open>Hello (1).md\<close>, and
  logged as created there; its record points to \<open>Hello.md\<close>.
\<close>

theorem record_path_ignores_disambiguation:
  "map fst (files (vault (processSingleChat example_utils 0 chat_hello
      [(''c0'', ''ChatGPT Archives/2024/01/Hello.md'')] (fresh_plugin hello_vault))))
     = [''ChatGPT Archives/2024/01/Hello (1).md'', ''ChatGPT Archives/2024/01/Hello.md''] \<and>
   map filePath (created (importLog (processSingleChat example_utils 0 chat_hello
      [(''c0'', ''ChatGPT Archives/2024/01/Hello.md'')] (fresh_plugin hello_vault))))
     = [''ChatGPT Archives/2024/01/Hello (1).md''] \<and>
   conversationRecords (processSingleChat example_utils 0 chat_hello
      [(''c0'', ''ChatGPT Archives/2024/01/Hello.md'')] (fresh_plugin hello_vault)) ''c9''
     = Some \<lparr>path = ''ChatGPT Archives/2024/01/Hello.md'', updateTime = 1704412805\<rparr>"
proof -
  let ?s' = "processSingleChat example_utils 0 chat_hello
      [(''c0'', ''ChatGPT Archives/2024/01/Hello.md'')] (fresh_plugin hello_vault)"
  have a: "map fst (files (vault ?s'))
     = [''ChatGPT Archives/2024/01/Hello (1).md'', ''ChatGPT Archives/2024/01/Hello.md'']"
    by (simp add: state_defs example_defs)
  have b: "map filePath (created (importLog ?s')) = [''ChatGPT Archives/2024/01/Hello (1).md'']"
    by (simp add: state_defs example_defs)
  have c: "conversationRecords ?s' ''c9''
     = Some \<lparr>path = ''ChatGPT Archives/2024/01/Hello.md'', updateTime = 1704412805\<rparr>"
    by (simp add: state_defs example_defs)
  from a b c show ?thesis by simp
qed

text \<open>Recording a global error never makes hasErrors true.\<close>

lemma hasErrors_addError: "hasErrors (addError msg details l) = hasErrors l"
  by (simp add: hasErrors_def addError_def)

text \<open>
  Claim C7 at a failing input. The zip container has no \<open>conversations.json\<close>. The run
  processes no conversation, writes only its report and leaves both maps as they were;
  the failure is in the global errors of the run log, but the one notification is the
  success text.
\<close>

theorem invalid_archive_notified_as_success:
  "conversationRecords (handleZipFile example_utils invalid_env (synced_plugin synced_vault))
     = conversationRecords (synced_plugin synced_vault) \<and>
   importedArchives (handleZipFile example_utils invalid_env (synced_plugin synced_vault))
     = importedArchives (synced_plugin synced_vault) \<and>
   map fst (files (vault (handleZipFile example_utils invalid_env (synced_plugin synced_vault))))
     = [''ChatGPT Archives/logs/2024-01-05 - ChatGPT Import log.md'', note_path] \<and>
   globalErrors (importLog (handleZipFile example_utils invalid_env (synced_plugin synced_vault)))
     = [(''Error handling zip file'', ''Invalid ZIP structure'')] \<and>
   notices (handleZipFile example_utils invalid_env (synced_plugin synced_vault))
     = [''Import completed. Log file created in the archive folder.'']"
proof -
  let ?s' = "handleZipFile example_utils invalid_env (synced_plugin synced_vault)"
  have a: "conversationRecords ?s' = conversationRecords (synced_plugin synced_vault)"
    by (simp add: state_defs example_defs run_level_defs zip_defs)
  have b: "importedArchives ?s' = importedArchives (synced_plugin synced_vault)"
    by (simp add: state_defs example_defs run_level_defs zip_defs)
  have c: "map fst (files (vault ?s'))
     = [''ChatGPT Archives/logs/2024-01-05 - ChatGPT Import log.md'', note_path]"
    by (simp add: state_defs example_defs run_level_defs zip_defs)
  have d: "globalErrors (importLog ?s') = [(''Error handling zip file'', ''Invalid ZIP structure'')]"
    by (simp add: state_defs example_defs run_level_defs zip_defs)
  have e: "notices ?s' = [''Import completed. Log file created in the archive folder.'']"
    by (simp add: state_defs example_defs run_level_defs zip_defs notice_success_def)
  from a b c d e show ?thesis by simp
qed

text \<open>
  Claim C8 at a failing input. The folder of the archive's one conversation cannot be
  created: two global errors are recorded, nothing is created, and the one notification
  of the run is the success text.
\<close>

theorem global_error_notified_as_success:
  "globalErrors (importLog (handleZipFile example_utils (archive_env [chat_v1]) (fresh_plugin folder_fault)))
     = [(''Failed to create folder: ChatGPT Archives/2024/'', ''EACCES''),
        (''Error processing chat: T'',
         ''Failed to create or access folder: ChatGPT Archives/2024/01. Failed to create folder: ChatGPT Archives/2024/. Reason: EACCES'')] \<and>
   created (importLog (handleZipFile example_utils (archive_env [chat_v1]) (fresh_plugin folder_fault))) = [] \<and>
   hasErrors (importLog (handleZipFile example_utils (archive_env [chat_v1]) (fresh_plugin folder_fault))) = False \<and>
   notices (handleZipFile example_utils (archive_env [chat_v1]) (fresh_plugin folder_fault))
     = [''Import completed. Log file created in the archive folder.'']"
proof -
  let ?s' = "handleZipFile example_utils (archive_env [chat_v1]) (fresh_plugin folder_fault)"
  have a: "globalErrors (importLog ?s')
     = [(''Failed to create folder: ChatGPT Archives/2024/'', ''EACCES''),
        (''Error processing chat: T'',
         ''Failed to create or access folder: ChatGPT Archives/2024/01. Failed to create folder: ChatGPT Archives/2024/. Reason: EACCES'')]"
    by (simp add: state_defs example_defs run_level_defs zip_defs)
  have b: "created (importLog ?s') = []"
    by (simp add: state_defs example_defs run_level_defs zip_defs)
  have c: "hasErrors (importLog ?s') = False"
    by (simp add: state_defs example_defs run_level_defs zip_defs)
  have d: "notices ?s' = [''Import completed. Log file created in the archive folder.'']"
    by (simp add: state_defs example_defs run_level_defs zip_defs notice_success_def)
  from a b c d show ?thesis by simp
qed

end
